theory Spec2Isabelle
  imports Complex_Main "HOL-Library.AList"
begin

section \<open>JavaScript values used by the proxy worker\<close>

text \<open>
  JavaScript numbers are modelled exactly: counters as \<open>nat\<close>, millisecond times and
  configured integers as \<open>int\<close>, and the fractional quantities (scores, weights, the
  random draw, the smoothed response time) as \<open>rat\<close>.  Rounding of IEEE doubles is not
  modelled.  Strings are byte strings; \<open>toLowerCase\<close>/\<open>toUpperCase\<close> map the ASCII
  letters and leave every other character alone.
\<close>

definition toLowerChar :: "char \<Rightarrow> char" where
  "toLowerChar c =
     (let n = (of_char c :: nat) in if 65 \<le> n \<and> n \<le> 90 then char_of (n + 32) else c)"

definition toUpperChar :: "char \<Rightarrow> char" where
  "toUpperChar c =
     (let n = (of_char c :: nat) in if 97 \<le> n \<and> n \<le> 122 then char_of (n - 32) else c)"

definition toLowerCase :: "string \<Rightarrow> string" where
  "toLowerCase s = map toLowerChar s"

definition toUpperCase :: "string \<Rightarrow> string" where
  "toUpperCase s = map toUpperChar s"

text \<open>\<open>s.startsWith(p)\<close> and \<open>s.includes(sub)\<close>.\<close>

fun startsWith :: "string \<Rightarrow> string \<Rightarrow> bool" where
  "startsWith s [] = True"
| "startsWith [] (p # ps) = False"
| "startsWith (c # s) (p # ps) = (if c = p then startsWith s ps else False)"

fun js_includes :: "string \<Rightarrow> string \<Rightarrow> bool" where
  "js_includes [] sub = startsWith [] sub"
| "js_includes (c # s) sub = (if startsWith (c # s) sub then True else js_includes s sub)"

text \<open>\<open>s.split(d)\<close> for a one-character separator: never empty, \<open>''''.split(d) = ['''']\<close>.\<close>

fun js_split :: "char \<Rightarrow> string \<Rightarrow> string list" where
  "js_split d [] = [[]]"
| "js_split d (c # s) =
     (if c = d then [] # js_split d s
      else (case js_split d s of [] \<Rightarrow> [[c]] | p # ps \<Rightarrow> (c # p) # ps))"

text \<open>\<open>xs[i]\<close>: \<open>undefined\<close> (here \<open>None\<close>) outside the array.\<close>

definition js_index :: "'a list \<Rightarrow> int \<Rightarrow> 'a option" where
  "js_index xs i = (if 0 \<le> i \<and> i < int (length xs) then Some (xs ! nat i) else None)"

section \<open>Data model (types)\<close>

record BackendConfig =
  url :: string
  weight :: rat
  region :: string

record RequestInfo =
  "method" :: string
  path :: string
  clientIP :: string
  country :: string
  userAgent :: string

record BackendHealth =
  isHealthy :: bool
  lastCheck :: int
  consecutiveFailures :: nat
  avgResponseTime :: rat

record BackendMetrics =
  requests :: nat
  errors :: nat
  totalTime :: int

text \<open>A JavaScript \<open>Map\<close> keyed by strings: an association list in insertion order,
  read with \<open>map_of\<close> and written with \<open>AList.update\<close>.\<close>

type_synonym 'v js_map = "(string \<times> 'v) list"

section \<open>LoadBalancer\<close>

definition REGION_MAP :: "string js_map" where
  "REGION_MAP =
    [(''CN'', ''asia-east''), (''HK'', ''asia-east''), (''TW'', ''asia-east''),
     (''JP'', ''asia-northeast''), (''KR'', ''asia-northeast''),
     (''SG'', ''asia-southeast''), (''MY'', ''asia-southeast''), (''TH'', ''asia-southeast''),
     (''ID'', ''asia-southeast''), (''PH'', ''asia-southeast''), (''VN'', ''asia-southeast''),
     (''IN'', ''asia-south''), (''PK'', ''asia-south''), (''BD'', ''asia-south''),
     (''US'', ''us-west''), (''CA'', ''us-west''), (''MX'', ''americas-north''),
     (''BR'', ''americas-south''), (''AR'', ''americas-south''), (''CL'', ''americas-south''),
     (''GB'', ''europe-west''), (''DE'', ''europe-west''), (''FR'', ''europe-west''),
     (''NL'', ''europe-west''), (''IT'', ''europe-west''), (''ES'', ''europe-west''),
     (''PL'', ''europe-east''), (''CZ'', ''europe-east''), (''RU'', ''europe-east''),
     (''AU'', ''oceania''), (''NZ'', ''oceania'')]"

definition exactMatch :: "string \<Rightarrow> BackendConfig \<Rightarrow> bool" where
  "exactMatch preferredRegion backend =
     (toLowerCase (region backend) = toLowerCase preferredRegion)"

definition partialMatch :: "string \<Rightarrow> BackendConfig \<Rightarrow> bool" where
  "partialMatch preferredRegion backend =
     (let regionParts = js_split CHR ''-'' preferredRegion;
          backendRegion = toLowerCase (region backend)
      in list_ex (\<lambda>part. js_includes backendRegion part) regionParts)"

definition getRegionalBackends :: "BackendConfig list \<Rightarrow> string \<Rightarrow> BackendConfig list" where
  "getRegionalBackends backends clientCountry =
     (if clientCountry = [] then []
      else if clientCountry = ''unknown'' then []
      else (case map_of REGION_MAP (toUpperCase clientCountry) of
              None \<Rightarrow> []
            | Some preferredRegion \<Rightarrow>
                (let matches = filter (exactMatch preferredRegion) backends
                 in if length matches = 0
                    then filter (partialMatch preferredRegion) backends
                    else matches)))"

text \<open>The walk of \<open>weightedRandomSelect\<close>: \<open>None\<close> when the loop ends without returning.\<close>

fun weightedWalk :: "BackendConfig list \<Rightarrow> rat \<Rightarrow> BackendConfig option" where
  "weightedWalk [] random = None"
| "weightedWalk (backend # rest) random =
     (let random' = random - weight backend
      in if random' \<le> 0 then Some backend else weightedWalk rest random')"

definition totalWeightOf :: "BackendConfig list \<Rightarrow> rat" where
  "totalWeightOf backends = foldl (\<lambda>sum backend. sum + weight backend) 0 backends"

text \<open>\<open>rnd\<close> is the value \<open>Math.random()\<close> returns in this call.\<close>

definition weightedRandomSelect :: "BackendConfig list \<Rightarrow> rat \<Rightarrow> BackendConfig option" where
  "weightedRandomSelect backends rnd =
     (let totalWeight = totalWeightOf backends
      in if totalWeight = 0 then js_index backends 0
         else (case weightedWalk backends (rnd * totalWeight) of
                 Some backend \<Rightarrow> Some backend
               | None \<Rightarrow> js_index backends (int (length backends) - 1)))"

definition scoreOf :: "BackendMetrics \<Rightarrow> rat" where
  "scoreOf metric =
     (let errorRate = of_nat (errors metric) / of_nat (requests metric);
          avgResponseTime = of_int (totalTime metric) / of_nat (requests metric);
          errorScore = errorRate * 100 * (7 / 10);
          timeScore = min (avgResponseTime / 100) 50 * (3 / 10)
      in errorScore + timeScore)"

text \<open>The first loop of \<open>selectByPerformance\<close>: the \<open>scores\<close> map, filled in list order.\<close>

fun computeScores ::
  "BackendConfig list \<Rightarrow> BackendMetrics js_map \<Rightarrow> rat js_map \<Rightarrow> rat js_map" where
  "computeScores [] metrics scores = scores"
| "computeScores (backend # rest) metrics scores =
     (case map_of metrics (url backend) of
        None \<Rightarrow> computeScores rest metrics (AList.update (url backend) 50 scores)
      | Some metric \<Rightarrow>
          if requests metric = 0
          then computeScores rest metrics (AList.update (url backend) 50 scores)
          else computeScores rest metrics (AList.update (url backend) (scoreOf metric) scores))"

text \<open>The score the loop stores for a url: 50 without metrics or without requests.\<close>

definition scoreAt :: "BackendMetrics js_map \<Rightarrow> string \<Rightarrow> rat" where
  "scoreAt metrics u =
     (case map_of metrics u of
        None \<Rightarrow> 50
      | Some metric \<Rightarrow> if requests metric = 0 then 50 else scoreOf metric)"

text \<open>\<open>Math.max(...values)\<close>.  Of no value JavaScript gives \<open>-Infinity\<close>; that happens
  only for an empty candidate list, where the result is never used, and is written 0 here.\<close>

definition mathMax :: "rat list \<Rightarrow> rat" where
  "mathMax vs = (case vs of [] \<Rightarrow> 0 | v # rest \<Rightarrow> foldl max v rest)"

text \<open>\<open>scores.get(url) || 50\<close>: 50 for a missing score and for the falsy score 0.\<close>

definition scoreOr50 :: "rat js_map \<Rightarrow> string \<Rightarrow> rat" where
  "scoreOr50 scores u =
     (case map_of scores u of None \<Rightarrow> 50 | Some s \<Rightarrow> if s = 0 then 50 else s)"

definition transientWeights ::
  "BackendConfig list \<Rightarrow> BackendMetrics js_map \<Rightarrow> BackendConfig list" where
  "transientWeights backends metrics =
     (let scores = computeScores backends metrics [];
          maxScore = mathMax (map snd scores) + 1
      in map (\<lambda>backend.
            backend\<lparr>weight := max 1 (of_int \<lfloor>maxScore - scoreOr50 scores (url backend)\<rfloor>)\<rparr>)
           backends)"

definition selectByPerformance ::
  "BackendConfig list \<Rightarrow> BackendMetrics js_map \<Rightarrow> rat \<Rightarrow> BackendConfig option" where
  "selectByPerformance backends metrics rnd =
     weightedRandomSelect (transientWeights backends metrics) rnd"

text \<open>The candidate set of \<open>selectBackend\<close> after the regional preference.\<close>

definition candidateBackendsOf :: "BackendConfig list \<Rightarrow> string \<Rightarrow> BackendConfig list" where
  "candidateBackendsOf backends clientCountry =
     (let regionalBackends = getRegionalBackends backends clientCountry
      in if length regionalBackends > 0 then regionalBackends else backends)"

text \<open>\<open>metrics\<close> is optional in the source: \<open>None\<close> when the argument is left out.\<close>

definition selectBackend ::
  "BackendConfig list \<Rightarrow> RequestInfo \<Rightarrow> BackendMetrics js_map option \<Rightarrow> rat
     \<Rightarrow> BackendConfig option" where
  "selectBackend backends requestInfo metrics rnd =
     (if length backends = 1 then js_index backends 0
      else
        (let candidateBackends = candidateBackendsOf backends (country requestInfo)
         in case metrics of
              None \<Rightarrow> weightedRandomSelect candidateBackends rnd
            | Some ms \<Rightarrow>
                if length ms > 0 then selectByPerformance candidateBackends ms rnd
                else weightedRandomSelect candidateBackends rnd))"

section \<open>Errors, requests, responses and the outside world\<close>

record JsError =
  err_name :: string
  err_message :: string

definition mkError :: "string \<Rightarrow> JsError" where
  "mkError msg = \<lparr>err_name = ''Error'', err_message = msg\<rparr>"

text \<open>A response body: none, the bytes an upstream sent, or the text
  \<open>JSON.stringify({error, status, timestamp})\<close> written by \<open>createErrorResponse\<close>.\<close>

datatype Body = NoBody | RawBody string | ErrorJson string int string

text \<open>\<open>Headers\<close> objects: names are case-insensitive and kept in lower case.\<close>

definition hget :: "string js_map \<Rightarrow> string \<Rightarrow> string option" where
  "hget hs n = map_of hs (toLowerCase n)"

definition hset :: "string js_map \<Rightarrow> string \<Rightarrow> string \<Rightarrow> string js_map" where
  "hset hs n v = AList.update (toLowerCase n) v hs"

definition hdelete :: "string js_map \<Rightarrow> string \<Rightarrow> string js_map" where
  "hdelete hs n = AList.delete (toLowerCase n) hs"

text \<open>\<open>headers.get(n) || d\<close>: \<open>d\<close> for a missing and for an empty value.\<close>

definition hgetOr :: "string js_map \<Rightarrow> string \<Rightarrow> string \<Rightarrow> string" where
  "hgetOr hs n d = (case hget hs n of None \<Rightarrow> d | Some v \<Rightarrow> if v = [] then d else v)"

record Request =
  req_method :: string
  req_protocol :: string
  req_hostname :: string
  req_pathname :: string
  req_search :: string
  req_headers :: "string js_map"
  req_body :: Body

record Response =
  status :: int
  statusText :: string
  headers :: "string js_map"
  body :: Body

definition ok :: "Response \<Rightarrow> bool" where
  "ok response = (200 \<le> status response \<and> status response \<le> 299)"

text \<open>What \<open>fetch\<close> is called with, and what it does: resolve with a response or throw.\<close>

record FetchArgs =
  f_url :: string
  f_method :: string
  f_headers :: "string js_map"
  f_body :: Body

datatype FetchOutcome = Responded Response | Threw JsError

text \<open>The outside world as an oracle: the \<open>k\<close>-th reading of the clock, the draw
  \<open>Math.random()\<close> offers the \<open>k\<close>-th selection, the outcome of the \<open>k\<close>-th call of
  \<open>fetch\<close>, the answer of \<open>cache.match\<close> (\<open>None\<close> for a miss and for an exception, which
  \<open>getCachedResponse\<close> turns into \<open>null\<close>) and the rendering of a time by \<open>toISOString\<close>.\<close>

record World =
  dateNow :: "nat \<Rightarrow> int"
  mathRandom :: "nat \<Rightarrow> rat"
  fetchResult :: "nat \<Rightarrow> FetchArgs \<Rightarrow> FetchOutcome"
  cacheMatch :: "Request \<Rightarrow> Response option"
  toISOString :: "int \<Rightarrow> string"

text \<open>The calls a request makes to the outside, in order.\<close>

datatype Effect =
    CacheMatch
  | CachePut Response
  | Fetch string string
  | Sleep int
  | SelectBackend

record ProxyConfig =
  backends :: "BackendConfig list"
  retryAttempts :: int
  enableCaching :: bool
  cacheMaxAge :: int
  healthCheckInterval :: int
  circuitBreakerThreshold :: int

text \<open>The mutable state of a \<open>ProxyHandler\<close>: its two maps, with the positions reached in
  the oracle and the log of outside calls.\<close>

record ProxyState =
  healthStatus :: "BackendHealth js_map"
  metrics :: "BackendMetrics js_map"
  nowCalls :: nat
  randomCalls :: nat
  fetchCalls :: nat
  effects :: "Effect list"

definition doNow :: "World \<Rightarrow> ProxyState \<Rightarrow> int \<times> ProxyState" where
  "doNow w st = (dateNow w (nowCalls st), st\<lparr>nowCalls := Suc (nowCalls st)\<rparr>)"

definition doFetch :: "World \<Rightarrow> FetchArgs \<Rightarrow> ProxyState \<Rightarrow> FetchOutcome \<times> ProxyState" where
  "doFetch w args st =
     (fetchResult w (fetchCalls st) args,
      st\<lparr>fetchCalls := Suc (fetchCalls st),
         effects := effects st @ [Fetch (f_method args) (f_url args)]\<rparr>)"

definition doSleep :: "int \<Rightarrow> ProxyState \<Rightarrow> ProxyState" where
  "doSleep ms st = st\<lparr>effects := effects st @ [Sleep ms]\<rparr>"

section \<open>helpers\<close>

fun showNat :: "nat \<Rightarrow> string" where
  "showNat n =
     (if n < 10 then [char_of (48 + n)] else showNat (n div 10) @ [char_of (48 + n mod 10)])"

definition showInt :: "int \<Rightarrow> string" where
  "showInt i = (if i < 0 then CHR ''-'' # showNat (nat (- i)) else showNat (nat i))"

definition createErrorResponse ::
  "World \<Rightarrow> string \<Rightarrow> int \<Rightarrow> ProxyState \<Rightarrow> Response \<times> ProxyState" where
  "createErrorResponse w msg code st =
     (case doNow w st of
        (t, st') \<Rightarrow>
          (\<lparr>status = code, statusText = [],
            headers = [(''content-type'', ''application/json''),
                       (''access-control-allow-origin'', ''*'')],
            body = ErrorJson msg code (toISOString w t)\<rparr>, st'))"

definition isNetworkError :: "JsError \<Rightarrow> bool" where
  "isNetworkError error =
     (if err_name error = ''TypeError'' then True
      else if js_includes (err_message error) ''fetch'' then True
      else if js_includes (err_message error) ''network'' then True
      else js_includes (err_message error) ''timeout'')"

definition getErrorStatus :: "JsError \<Rightarrow> int" where
  "getErrorStatus error =
     (if js_includes (err_message error) ''timeout'' then 504
      else if js_includes (err_message error) ''network'' then 502
      else if js_includes (err_message error) ''aborted'' then 499
      else 503)"

section \<open>ProxyService\<close>

definition isRetryableError :: "JsError \<Rightarrow> bool" where
  "isRetryableError error =
     (if err_name error = ''TypeError'' then True
      else if js_includes (err_message error) ''fetch'' then True
      else if js_includes (err_message error) ''network'' then True
      else if js_includes (err_message error) ''timeout'' then True
      else js_includes (err_message error) ''aborted'')"

text \<open>The header rewriting and the target of \<open>proxyRequest\<close>.\<close>

definition forwardedHeaders :: "Request \<Rightarrow> string js_map" where
  "forwardedHeaders request =
     (let h0 = req_headers request;
          h1 = hset h0 ''X-Forwarded-For'' (hgetOr (req_headers request) ''CF-Connecting-IP'' ''unknown'');
          h2 = hset h1 ''X-Forwarded-Proto'' (butlast (req_protocol request));
          h3 = hset h2 ''X-Forwarded-Host'' (req_hostname request);
          h4 = hset h3 ''X-Real-IP'' (hgetOr (req_headers request) ''CF-Connecting-IP'' ''unknown'')
      in foldl hdelete h4 [''cf-connecting-ip'', ''cf-ray'', ''cf-visitor'', ''cf-ipcountry''])"

definition proxyArgs :: "Request \<Rightarrow> BackendConfig \<Rightarrow> FetchArgs" where
  "proxyArgs request backend =
     \<lparr>f_url = url backend @ req_pathname request @ req_search request,
      f_method = req_method request,
      f_headers = forwardedHeaders request,
      f_body = (if req_method request \<noteq> ''GET'' \<and> req_method request \<noteq> ''HEAD''
                then req_body request else NoBody)\<rparr>"

text \<open>The retry loop of \<open>proxyRequest\<close>, from \<open>attempt\<close> on.  \<open>Inl\<close> is the error thrown,
  \<open>Inr\<close> the response returned.\<close>

function retryLoop ::
  "World \<Rightarrow> ProxyConfig \<Rightarrow> FetchArgs \<Rightarrow> int \<Rightarrow> JsError option \<Rightarrow> ProxyState
     \<Rightarrow> (JsError + Response) \<times> ProxyState" where
  "retryLoop w config args attempt lastError st =
     (if attempt < retryAttempts config then
        (case doFetch w args st of
           (Responded response, st1) \<Rightarrow> (Inr response, st1)
         | (Threw error, st1) \<Rightarrow>
             if \<not> isRetryableError error then (Inl error, st1)
             else
               (let st2 = (if attempt < retryAttempts config - 1
                           then doSleep (2 ^ nat attempt * 1000) st1 else st1)
                in retryLoop w config args (attempt + 1) (Some error) st2))
      else
        (case lastError of
           Some error \<Rightarrow> (Inl error, st)
         | None \<Rightarrow> (Inl (mkError ''All retry attempts failed''), st)))"
  by pat_completeness auto
termination
  by (relation "measure (\<lambda>(w, config, args, attempt, lastError, st).
                  nat (retryAttempts config - attempt))") auto

definition proxyRequest ::
  "World \<Rightarrow> ProxyConfig \<Rightarrow> Request \<Rightarrow> BackendConfig \<Rightarrow> ProxyState
     \<Rightarrow> (JsError + Response) \<times> ProxyState" where
  "proxyRequest w config request backend st =
     retryLoop w config (proxyArgs request backend) 0 None st"

text \<open>An attempt that ends in an error the Forwarder retries.\<close>

fun isRetryableThrow :: "FetchOutcome \<Rightarrow> bool" where
  "isRetryableThrow (Threw error) = isRetryableError error"
| "isRetryableThrow (Responded response) = False"

section \<open>ProxyHandler\<close>

text \<open>The constructor's \<open>forEach\<close> over the configured backends.\<close>

definition initialHealth :: BackendHealth where
  "initialHealth = \<lparr>isHealthy = True, lastCheck = 0, consecutiveFailures = 0, avgResponseTime = 0\<rparr>"

definition initialMetrics :: BackendMetrics where
  "initialMetrics = \<lparr>requests = 0, errors = 0, totalTime = 0\<rparr>"

definition emptyState :: ProxyState where
  "emptyState =
     \<lparr>healthStatus = [], metrics = [], nowCalls = 0, randomCalls = 0, fetchCalls = 0,
      effects = []\<rparr>"

definition registerBackend :: "ProxyState \<Rightarrow> BackendConfig \<Rightarrow> ProxyState" where
  "registerBackend st backend =
     st\<lparr>healthStatus := AList.update (url backend) initialHealth (healthStatus st),
        metrics := AList.update (url backend) initialMetrics (metrics st)\<rparr>"

definition initState :: "ProxyConfig \<Rightarrow> ProxyState" where
  "initState config = foldl registerBackend emptyState (backends config)"

definition markBackendHealthy :: "string \<Rightarrow> ProxyState \<Rightarrow> ProxyState" where
  "markBackendHealthy u st =
     (case map_of (healthStatus st) u of
        None \<Rightarrow> st
      | Some health \<Rightarrow>
          st\<lparr>healthStatus :=
               AList.update u (health\<lparr>isHealthy := True, consecutiveFailures := 0\<rparr>)
                 (healthStatus st)\<rparr>)"

text \<open>\<open>consecutiveFailures++\<close>, then \<open>isHealthy\<close> from the new counter.\<close>

definition bumpFailures :: "ProxyConfig \<Rightarrow> BackendHealth \<Rightarrow> BackendHealth" where
  "bumpFailures config health =
     (let health1 = health\<lparr>consecutiveFailures := consecutiveFailures health + 1\<rparr>
      in health1\<lparr>isHealthy :=
                   int (consecutiveFailures health1) < circuitBreakerThreshold config\<rparr>)"

definition markBackendUnhealthy :: "ProxyConfig \<Rightarrow> string \<Rightarrow> ProxyState \<Rightarrow> ProxyState" where
  "markBackendUnhealthy config u st =
     (case map_of (healthStatus st) u of
        None \<Rightarrow> st
      | Some health \<Rightarrow>
          st\<lparr>healthStatus := AList.update u (bumpFailures config health) (healthStatus st)\<rparr>)"

definition probeArgs :: "BackendConfig \<Rightarrow> FetchArgs" where
  "probeArgs backend =
     \<lparr>f_url = url backend @ ''/health'', f_method = ''HEAD'', f_headers = [], f_body = NoBody\<rparr>"

definition checkBackendHealth :: "World \<Rightarrow> ProxyConfig \<Rightarrow> BackendConfig \<Rightarrow> ProxyState \<Rightarrow> ProxyState" where
  "checkBackendHealth w config backend st =
     (case map_of (healthStatus st) (url backend) of
        None \<Rightarrow> st
      | Some health \<Rightarrow>
          (case doFetch w (probeArgs backend) st of
             (outcome, st1) \<Rightarrow>
               (let health1 =
                      (case outcome of
                         Responded response \<Rightarrow>
                           if ok response
                           then health\<lparr>isHealthy := True, consecutiveFailures := 0\<rparr>
                           else bumpFailures config health
                       | Threw error \<Rightarrow> bumpFailures config health)
                in case doNow w st1 of
                     (t, st2) \<Rightarrow>
                       st2\<lparr>healthStatus :=
                             AList.update (url backend) (health1\<lparr>lastCheck := t\<rparr>)
                               (healthStatus st2)\<rparr>)))"

text \<open>\<open>health?.isHealthy !== false\<close>: a backend without a record counts as healthy.\<close>

definition notUnhealthy :: "ProxyState \<Rightarrow> BackendConfig \<Rightarrow> bool" where
  "notUnhealthy st backend =
     (case map_of (healthStatus st) (url backend) of None \<Rightarrow> True | Some health \<Rightarrow> isHealthy health)"

fun refreshProbes ::
  "World \<Rightarrow> ProxyConfig \<Rightarrow> int \<Rightarrow> BackendConfig list \<Rightarrow> ProxyState \<Rightarrow> ProxyState" where
  "refreshProbes w config now [] st = st"
| "refreshProbes w config now (backend # rest) st =
     (case map_of (healthStatus st) (url backend) of
        None \<Rightarrow> refreshProbes w config now rest st
      | Some health \<Rightarrow>
          if now - lastCheck health > healthCheckInterval config
          then refreshProbes w config now rest (checkBackendHealth w config backend st)
          else refreshProbes w config now rest st)"

definition getHealthyBackends ::
  "World \<Rightarrow> ProxyConfig \<Rightarrow> ProxyState \<Rightarrow> BackendConfig list \<times> ProxyState" where
  "getHealthyBackends w config st =
     (case doNow w st of
        (now, st1) \<Rightarrow>
          (let st2 = refreshProbes w config now (backends config) st1
           in (filter (notUnhealthy st2) (backends config), st2)))"

definition updateMetrics :: "string \<Rightarrow> int \<Rightarrow> bool \<Rightarrow> ProxyState \<Rightarrow> ProxyState" where
  "updateMetrics backendUrl duration success st =
     (let st1 =
            (case map_of (metrics st) backendUrl of
               None \<Rightarrow> st
             | Some m \<Rightarrow>
                 (let m1 = m\<lparr>requests := requests m + 1\<rparr>;
                      m2 = m1\<lparr>totalTime := totalTime m1 + duration\<rparr>;
                      m3 = (if \<not> success then m2\<lparr>errors := errors m2 + 1\<rparr> else m2)
                  in st\<lparr>metrics := AList.update backendUrl m3 (metrics st)\<rparr>))
      in case map_of (healthStatus st1) backendUrl of
           None \<Rightarrow> st1
         | Some health \<Rightarrow>
             st1\<lparr>healthStatus :=
                  AList.update backendUrl
                    (health\<lparr>avgResponseTime := (avgResponseTime health + of_int duration) / 2\<rparr>)
                    (healthStatus st1)\<rparr>)"

definition shouldCacheResponse :: "ProxyConfig \<Rightarrow> Request \<Rightarrow> Response \<Rightarrow> bool" where
  "shouldCacheResponse config request response =
     (if \<not> enableCaching config then False
      else if req_method request \<noteq> ''GET'' then False
      else if \<not> ok response then False
      else
        (let cacheControl = hget (headers response) ''cache-control'';
             noStore = (case cacheControl of
                          None \<Rightarrow> False
                        | Some cc \<Rightarrow> if js_includes cc ''no-cache'' then True
                                     else js_includes cc ''private'')
         in if noStore then False
            else
              (let contentType = hgetOr (headers response) ''content-type'' []
               in if js_includes contentType ''application/json'' then True
                  else if js_includes contentType ''text/'' then True
                  else js_includes contentType ''application/xml'')))"

text \<open>\<open>parseInt(s)\<close> with no radix: leading white space, a sign, a \<open>0x\<close> prefix for
  base 16, then the longest run of digits; \<open>None\<close> is \<open>NaN\<close>.\<close>

definition isWhiteSpace :: "char \<Rightarrow> bool" where
  "isWhiteSpace c = (let n = (of_char c :: nat) in n = 32 \<or> (9 \<le> n \<and> n \<le> 13))"

definition digitValue :: "char \<Rightarrow> nat option" where
  "digitValue c =
     (let n = (of_char c :: nat)
      in if 48 \<le> n \<and> n \<le> 57 then Some (n - 48)
         else if 97 \<le> n \<and> n \<le> 122 then Some (n - 87)
         else if 65 \<le> n \<and> n \<le> 90 then Some (n - 55)
         else None)"

fun takeDigits :: "nat \<Rightarrow> string \<Rightarrow> nat list" where
  "takeDigits radix [] = []"
| "takeDigits radix (c # s) =
     (case digitValue c of
        None \<Rightarrow> []
      | Some d \<Rightarrow> if d < radix then d # takeDigits radix s else [])"

definition parseInt :: "string \<Rightarrow> int option" where
  "parseInt s =
     (let s1 = dropWhile isWhiteSpace s;
          sgn = (if startsWith s1 ''-'' then - 1 else (1 :: int));
          s2 = (if startsWith s1 ''-'' then drop 1 s1
                else if startsWith s1 ''+'' then drop 1 s1 else s1);
          hex = (if startsWith s2 ''0x'' then True else startsWith s2 ''0X'');
          radix = (if hex then 16 else 10);
          s3 = (if hex then drop 2 s2 else s2);
          ds = takeDigits radix s3
      in if ds = [] then None
         else Some (sgn * foldl (\<lambda>acc d. acc * int radix + int d) 0 ds))"

text \<open>\<open>contentLength ? parseInt(contentLength) > 10 * 1024 * 1024 : false\<close>; a comparison
  with \<open>NaN\<close> is false.\<close>

definition isRequestTooLarge :: "Request \<Rightarrow> bool" where
  "isRequestTooLarge request =
     (case hget (req_headers request) ''content-length'' of
        None \<Rightarrow> False
      | Some contentLength \<Rightarrow>
          if contentLength = [] then False
          else (case parseInt contentLength of
                  None \<Rightarrow> False
                | Some n \<Rightarrow> n > 10 * 1024 * 1024))"

definition parseRequest :: "Request \<Rightarrow> RequestInfo" where
  "parseRequest request =
     \<lparr>method = req_method request,
      path = req_pathname request @ req_search request,
      clientIP = hgetOr (req_headers request) ''CF-Connecting-IP'' ''unknown'',
      country = hgetOr (req_headers request) ''CF-IPCountry'' ''unknown'',
      userAgent = hgetOr (req_headers request) ''User-Agent'' ''unknown''\<rparr>"

definition getCachedResponse :: "World \<Rightarrow> Request \<Rightarrow> ProxyState \<Rightarrow> Response option \<times> ProxyState" where
  "getCachedResponse w request st =
     (cacheMatch w request, st\<lparr>effects := effects st @ [CacheMatch]\<rparr>)"

definition cacheResponse :: "World \<Rightarrow> ProxyConfig \<Rightarrow> Request \<Rightarrow> Response \<Rightarrow> ProxyState \<Rightarrow> ProxyState" where
  "cacheResponse w config request response st =
     (case doNow w st of
        (t, st1) \<Rightarrow>
          (let h1 = hset (headers response) ''Cache-Control''
                      (''max-age='' @ showInt (cacheMaxAge config));
               h2 = hset h1 ''X-Cached-At'' (toISOString w t);
               responseToCache = response\<lparr>headers := h2\<rparr>
           in st1\<lparr>effects := effects st1 @ [CachePut responseToCache]\<rparr>))"

text \<open>The response rebuilt with the two backend headers.\<close>

definition withBackendHeaders :: "Response \<Rightarrow> BackendConfig \<Rightarrow> Response" where
  "withBackendHeaders response backend =
     response\<lparr>headers :=
       hset (hset (headers response) ''X-Backend-URL'' (url backend))
         ''X-Backend-Region'' (region backend)\<rparr>"

definition doSelect ::
  "World \<Rightarrow> BackendConfig list \<Rightarrow> RequestInfo \<Rightarrow> ProxyState \<Rightarrow> BackendConfig option \<times> ProxyState" where
  "doSelect w candidates requestInfo st =
     (selectBackend candidates requestInfo (Some (metrics st)) (mathRandom w (randomCalls st)),
      st\<lparr>randomCalls := Suc (randomCalls st), effects := effects st @ [SelectBackend]\<rparr>)"

text \<open>The loop of \<open>proxyRequestWithFallback\<close>, from iteration \<open>i\<close> on.  A selection that
  gave \<open>undefined\<close> would make \<open>backend.url\<close> throw a \<open>TypeError\<close> out of the function.\<close>

function fallbackLoop ::
  "World \<Rightarrow> ProxyConfig \<Rightarrow> Request \<Rightarrow> BackendConfig list \<Rightarrow> nat \<Rightarrow> JsError option
     \<Rightarrow> ProxyState \<Rightarrow> (JsError + Response) \<times> ProxyState" where
  "fallbackLoop w config request candidates i lastError st =
     (if i < min (length candidates) 3 then
        (case doSelect w candidates (parseRequest request) st of
           (None, st1) \<Rightarrow>
             (Inl \<lparr>err_name = ''TypeError'',
                   err_message = ''Cannot read properties of undefined''\<rparr>, st1)
         | (Some backend, st1) \<Rightarrow>
             (case proxyRequest w config request backend st1 of
                (Inr response, st2) \<Rightarrow>
                  if ok response
                  then (Inr (withBackendHeaders response backend),
                        markBackendHealthy (url backend) st2)
                  else if status response \<ge> 500
                  then fallbackLoop w config request candidates (Suc i)
                         (Some (mkError (''Backend returned '' @ showInt (status response))))
                         (markBackendUnhealthy config (url backend) st2)
                  else (Inr (withBackendHeaders response backend), st2)
              | (Inl error, st2) \<Rightarrow>
                  (let st3 = markBackendUnhealthy config (url backend) st2
                   in if isNetworkError error \<and> i < min (length candidates) 3 - 1
                      then fallbackLoop w config request candidates (Suc i) (Some error) st3
                      else (Inl error, st3))))
      else
        (case lastError of
           Some error \<Rightarrow> (Inl error, st)
         | None \<Rightarrow> (Inl (mkError ''All backends failed''), st)))"
  by pat_completeness auto
termination
  by (relation "measure (\<lambda>(w, config, request, candidates, i, lastError, st).
                  min (length candidates) 3 - i)") auto

definition proxyRequestWithFallback ::
  "World \<Rightarrow> ProxyConfig \<Rightarrow> Request \<Rightarrow> BackendConfig list \<Rightarrow> ProxyState
     \<Rightarrow> (JsError + Response) \<times> ProxyState" where
  "proxyRequestWithFallback w config request candidates st =
     fallbackLoop w config request candidates 0 None st"

text \<open>\<open>handleRequest\<close>.  The request id and the console output are left out; the
  \<open>catch\<close> reads the clock once for its log line.\<close>

definition handleRequest ::
  "World \<Rightarrow> ProxyConfig \<Rightarrow> Request \<Rightarrow> ProxyState \<Rightarrow> Response \<times> ProxyState" where
  "handleRequest w config request st =
     (case doNow w st of
        (startTime, st0) \<Rightarrow>
          if isRequestTooLarge request
          then createErrorResponse w ''Request too large'' 413 st0
          else
            (case (if enableCaching config \<and> req_method request = ''GET''
                   then getCachedResponse w request st0 else (None, st0)) of
               (Some cachedResponse, st1) \<Rightarrow> (cachedResponse, st1)
             | (None, st1) \<Rightarrow>
                 (case getHealthyBackends w config st1 of
                    (healthyBackends, st2) \<Rightarrow>
                      if length healthyBackends = 0
                      then createErrorResponse w ''All backends unavailable'' 503 st2
                      else
                        (case proxyRequestWithFallback w config request healthyBackends st2 of
                           (Inl error, st3) \<Rightarrow>
                             (case doNow w st3 of
                                (t, st4) \<Rightarrow>
                                  createErrorResponse w ''Service temporarily unavailable''
                                    (getErrorStatus error) st4)
                         | (Inr response, st3) \<Rightarrow>
                             (case doNow w st3 of
                                (t, st4) \<Rightarrow>
                                  (let backendUrl = hgetOr (headers response) ''X-Backend-URL'' [];
                                       duration = t - startTime;
                                       st5 = updateMetrics backendUrl duration (ok response) st4;
                                       st6 = (if shouldCacheResponse config request response
                                              then cacheResponse w config request response st5
                                              else st5)
                                   in (response, st6)))))))"

text \<open>The responses handed to \<open>cache.put\<close>, in order, read off the log of outside calls.\<close>

fun storedResponses :: "Effect list \<Rightarrow> Response list" where
  "storedResponses [] = []"
| "storedResponses (CachePut response # es) = response # storedResponses es"
| "storedResponses (e # es) = storedResponses es"

section \<open>ConfigLoader\<close>

text \<open>The configuration read from environment variables (the JSON form of
  \<open>BACKENDS_CONFIG\<close> is not modelled).  \<open>parseInt(s, 10)\<close> takes no \<open>0x\<close> prefix.\<close>

definition parseInt10 :: "string \<Rightarrow> int option" where
  "parseInt10 s =
     (let s1 = dropWhile isWhiteSpace s;
          sgn = (if startsWith s1 ''-'' then - 1 else (1 :: int));
          s2 = (if startsWith s1 ''-'' then drop 1 s1
                else if startsWith s1 ''+'' then drop 1 s1 else s1);
          ds = takeDigits 10 s2
      in if ds = [] then None
         else Some (sgn * foldl (\<lambda>acc d. acc * 10 + int d) 0 ds))"

definition parseNumber :: "string option \<Rightarrow> int \<Rightarrow> int" where
  "parseNumber v defaultValue =
     (case v of
        None \<Rightarrow> defaultValue
      | Some s \<Rightarrow>
          if s = [] then defaultValue
          else (case parseInt10 s of None \<Rightarrow> defaultValue | Some parsed \<Rightarrow> parsed))"

definition parseBoolean :: "string option \<Rightarrow> bool \<Rightarrow> bool" where
  "parseBoolean v defaultValue =
     (case v of
        None \<Rightarrow> defaultValue
      | Some s \<Rightarrow> if s = [] then defaultValue else toLowerCase s = ''true'')"

definition trim :: "string \<Rightarrow> string" where
  "trim s = rev (dropWhile isWhiteSpace (rev (dropWhile isWhiteSpace s)))"

text \<open>\<open>BACKEND_URL i\<close> stands for the variable \<open>BACKEND_i_URL\<close>, and so on.\<close>

record Env =
  BACKEND_URL :: "nat \<Rightarrow> string option"
  BACKEND_REGION :: "nat \<Rightarrow> string option"
  BACKEND_WEIGHT :: "nat \<Rightarrow> string option"
  RETRY_ATTEMPTS :: "string option"
  ENABLE_CACHING :: "string option"
  CACHE_MAX_AGE :: "string option"
  HEALTH_CHECK_INTERVAL :: "string option"
  CIRCUIT_BREAKER_THRESHOLD :: "string option"

definition DEFAULT_CONFIG :: ProxyConfig where
  "DEFAULT_CONFIG =
     \<lparr>backends = [\<lparr>url = ''https://httpbin.org'', weight = 1, region = ''global''\<rparr>],
      retryAttempts = 2, enableCaching = True, cacheMaxAge = 300,
      healthCheckInterval = 30000, circuitBreakerThreshold = 5\<rparr>"

definition backendFromEnv :: "Env \<Rightarrow> nat \<Rightarrow> BackendConfig list" where
  "backendFromEnv env i =
     (case BACKEND_URL env i of
        None \<Rightarrow> []
      | Some u \<Rightarrow>
          if u = [] then []
          else [\<lparr>url = trim u,
                 weight = of_int (parseNumber (BACKEND_WEIGHT env i) 1),
                 region = trim (case BACKEND_REGION env i of
                                  None \<Rightarrow> ''unknown''
                                | Some r \<Rightarrow> if r = [] then ''unknown'' else r)\<rparr>])"

definition loadFromEnvVariables :: "Env \<Rightarrow> BackendConfig list" where
  "loadFromEnvVariables env = concat (map (backendFromEnv env) [1, 2, 3, 4, 5])"

definition buildConfigFromBackends :: "BackendConfig list \<Rightarrow> Env \<Rightarrow> ProxyConfig" where
  "buildConfigFromBackends bs env =
     \<lparr>backends = bs,
      retryAttempts = parseNumber (RETRY_ATTEMPTS env) 2,
      enableCaching = parseBoolean (ENABLE_CACHING env) True,
      cacheMaxAge = parseNumber (CACHE_MAX_AGE env) 300,
      healthCheckInterval = parseNumber (HEALTH_CHECK_INTERVAL env) 30000,
      circuitBreakerThreshold = parseNumber (CIRCUIT_BREAKER_THRESHOLD env) 5\<rparr>"

text \<open>\<open>loadConfig\<close> when \<open>BACKENDS_CONFIG\<close> is not set.\<close>

definition loadConfig :: "Env \<Rightarrow> ProxyConfig" where
  "loadConfig env =
     (let bs = loadFromEnvVariables env
      in if length bs > 0 then buildConfigFromBackends bs env else DEFAULT_CONFIG)"

text \<open>\<open>validateConfig\<close>: the error it throws, or \<open>None\<close> when it returns.\<close>

fun validateBackends :: "BackendConfig list \<Rightarrow> JsError option" where
  "validateBackends [] = None"
| "validateBackends (backend # rest) =
     (if url backend = [] then Some (mkError ''Backend URL is required'')
      else if region backend = [] then Some (mkError ''Backend region is required'')
      else if weight backend \<le> 0 then Some (mkError ''Backend weight must be greater than 0'')
      else validateBackends rest)"

definition validateConfig :: "ProxyConfig \<Rightarrow> JsError option" where
  "validateConfig config =
     (if length (backends config) = 0
      then Some (mkError ''At least one backend must be configured'')
      else validateBackends (backends config))"

section \<open>Runs of the registry\<close>

text \<open>The operations that change the health and metrics records, as events, and the
  state they lead to from the constructor's.\<close>

datatype RegistryEvent =
    MarkHealthy string
  | MarkFailure string
  | ProbeOutcome BackendConfig
  | RecordOutcome string int bool

fun applyEvent :: "World \<Rightarrow> ProxyConfig \<Rightarrow> ProxyState \<Rightarrow> RegistryEvent \<Rightarrow> ProxyState" where
  "applyEvent w config st (MarkHealthy u) = markBackendHealthy u st"
| "applyEvent w config st (MarkFailure u) = markBackendUnhealthy config u st"
| "applyEvent w config st (ProbeOutcome backend) = checkBackendHealth w config backend st"
| "applyEvent w config st (RecordOutcome u duration success) = updateMetrics u duration success st"

definition runEvents :: "World \<Rightarrow> ProxyConfig \<Rightarrow> RegistryEvent list \<Rightarrow> ProxyState" where
  "runEvents w config evs = foldl (applyEvent w config) (initState config) evs"

definition healthConsistent :: "ProxyConfig \<Rightarrow> BackendHealth \<Rightarrow> bool" where
  "healthConsistent config health =
     (isHealthy health = (int (consecutiveFailures health) < circuitBreakerThreshold config))"

definition allHealth :: "(BackendHealth \<Rightarrow> bool) \<Rightarrow> ProxyState \<Rightarrow> bool" where
  "allHealth P st = list_all (\<lambda>(u, health). P health) (healthStatus st)"

definition allMetrics :: "(BackendMetrics \<Rightarrow> bool) \<Rightarrow> ProxyState \<Rightarrow> bool" where
  "allMetrics P st = list_all (\<lambda>(u, m). P m) (metrics st)"

definition errorsBounded :: "BackendMetrics \<Rightarrow> bool" where
  "errorsBounded m = (errors m \<le> requests m)"

fun nonNegativeDuration :: "RegistryEvent \<Rightarrow> bool" where
  "nonNegativeDuration (RecordOutcome u duration success) = (0 \<le> duration)"
| "nonNegativeDuration ev = True"

section \<open>Scenario data\<close>

text \<open>The two backends and the request context of the geographic-routing scenario.\<close>

definition backendA :: BackendConfig where
  "backendA = \<lparr>url = ''A'', weight = 1, region = ''us-west''\<rparr>"

definition backendB :: BackendConfig where
  "backendB = \<lparr>url = ''B'', weight = 1, region = ''asia-east''\<rparr>"

definition contextFrom :: "string \<Rightarrow> RequestInfo" where
  "contextFrom c =
     \<lparr>method = ''GET'', path = ''/'', clientIP = ''unknown'', country = c,
      userAgent = ''unknown''\<rparr>"

text \<open>A configuration with the documented defaults and a given circuit-breaker threshold,
  and a world in which every \<open>fetch\<close> fails and the cache is empty.\<close>

definition configWith :: "int \<Rightarrow> ProxyConfig" where
  "configWith threshold =
     \<lparr>backends = [backendA, backendB],
      retryAttempts = 2, enableCaching = True, cacheMaxAge = 300,
      healthCheckInterval = 30000, circuitBreakerThreshold = threshold\<rparr>"

definition quietWorld :: World where
  "quietWorld =
     \<lparr>dateNow = (\<lambda>k. int k), mathRandom = (\<lambda>k. 0),
      fetchResult = (\<lambda>k args. Threw \<lparr>err_name = ''TypeError'', err_message = ''fetch failed''\<rparr>),
      cacheMatch = (\<lambda>request. None), toISOString = showInt\<rparr>"

text \<open>Requests and responses of the scenarios: a GET, an oversize POST, a 200 response
  whose content type only mentions \<open>text/\<close> in a parameter, and the metrics of a backend
  that has answered one request without error in less than a millisecond.\<close>

definition getRequest :: Request where
  "getRequest =
     \<lparr>req_method = ''GET'', req_protocol = ''https:'', req_hostname = ''proxy.example'',
      req_pathname = ''/x'', req_search = [], req_headers = [(''cf-ipcountry'', ''JP'')],
      req_body = NoBody\<rparr>"

definition oversizeRequest :: Request where
  "oversizeRequest =
     \<lparr>req_method = ''POST'', req_protocol = ''https:'', req_hostname = ''proxy.example'',
      req_pathname = ''/upload'', req_search = [],
      req_headers = [(''content-length'', ''20971520'')], req_body = RawBody ''...''\<rparr>"

definition relatedResponse :: Response where
  "relatedResponse =
     \<lparr>status = 200, statusText = ''OK'',
      headers = [(''content-type'', ''multipart/related; type=text/xml'')],
      body = RawBody ''...''\<rparr>"

definition fastMetrics :: "BackendMetrics js_map" where
  "fastMetrics = [(''A'', \<lparr>requests = 1, errors = 0, totalTime = 0\<rparr>)]"

text \<open>Upstream answers of the scenarios, a world whose first \<open>m\<close> calls of \<open>fetch\<close> fail on
  the network and whose later ones answer 503, a backend with an absolute url and a
  configuration with a given \<open>retryAttempts\<close> for it, and worlds in which every \<open>fetch\<close>
  answers with a given status.\<close>

definition answer :: "int \<Rightarrow> Response" where
  "answer code = \<lparr>status = code, statusText = [], headers = [], body = RawBody ''...''\<rparr>"

definition failingFirst :: "nat \<Rightarrow> World" where
  "failingFirst m =
     quietWorld\<lparr>fetchResult :=
       (\<lambda>k args. if k < m then Threw \<lparr>err_name = ''TypeError'', err_message = ''fetch failed''\<rparr>
                 else Responded (answer 503))\<rparr>"

definition originBackend :: BackendConfig where
  "originBackend = \<lparr>url = ''https://a.example'', weight = 1, region = ''us-west''\<rparr>"

definition attemptsConfig :: "int \<Rightarrow> ProxyConfig" where
  "attemptsConfig n = (configWith 5)\<lparr>backends := [originBackend], retryAttempts := n\<rparr>"

definition answeringWorld :: "int \<Rightarrow> World" where
  "answeringWorld code = quietWorld\<lparr>fetchResult := (\<lambda>k args. Responded (answer code))\<rparr>"

text \<open>An environment that names the two backends and sets
  \<open>CIRCUIT_BREAKER_THRESHOLD\<close> to \<open>0\<close>.\<close>

definition zeroThresholdEnv :: Env where
  "zeroThresholdEnv =
     \<lparr>BACKEND_URL = (\<lambda>i. if i = 1 then Some ''A'' else if i = 2 then Some ''B'' else None),
      BACKEND_REGION =
        (\<lambda>i. if i = 1 then Some ''us-west'' else if i = 2 then Some ''asia-east'' else None),
      BACKEND_WEIGHT = (\<lambda>i. None),
      RETRY_ATTEMPTS = None, ENABLE_CACHING = None, CACHE_MAX_AGE = None,
      HEALTH_CHECK_INTERVAL = None, CIRCUIT_BREAKER_THRESHOLD = Some ''0''\<rparr>"

text \<open>A world in which every \<open>fetch\<close> answers 200 with the content type
  \<open>multipart/related; type=text/xml\<close>.\<close>

definition relatedWorld :: World where
  "relatedWorld = quietWorld\<lparr>fetchResult := (\<lambda>k args. Responded relatedResponse)\<rparr>"

text \<open>The state after two failures of backend A.\<close>

definition twoFailures :: ProxyState where
  "twoFailures = runEvents quietWorld (configWith 5) [MarkFailure ''A'', MarkFailure ''A'']"

section \<open>Selection is safe\<close>

lemma js_index_first: "xs \<noteq> [] \<Longrightarrow> js_index xs 0 = Some (hd xs)"
  by (cases xs) (simp_all add: js_index_def)

lemma js_index_last: "xs \<noteq> [] \<Longrightarrow> js_index xs (int (length xs) - 1) = Some (last xs)"
proof -
  assume ne: "xs \<noteq> []"
  then have "nat (int (length xs) - 1) = length xs - 1" by simp
  moreover from ne have "0 \<le> int (length xs) - 1" by (cases xs) simp_all
  ultimately show ?thesis using ne by (simp add: js_index_def last_conv_nth)
qed

lemma weightedWalk_stops:
  "weightedWalk cs r = Some b \<Longrightarrow>
     \<exists>i < length cs. b = cs ! i
        \<and> r - sum_list (map weight (take (Suc i) cs)) \<le> 0
        \<and> (\<forall>k < i. 0 < r - sum_list (map weight (take (Suc k) cs)))"
proof (induction cs arbitrary: r)
  case Nil
  then show ?case by simp
next
  case (Cons c cs)
  show ?case
  proof (cases "r - weight c \<le> 0")
    case True
    with Cons.prems have "b = c" by (simp add: Let_def)
    with True show ?thesis by (intro exI[of _ 0]) simp
  next
    case False
    with Cons.prems have "weightedWalk cs (r - weight c) = Some b" by (simp add: Let_def)
    from Cons.IH[OF this] obtain i where i: "i < length cs" "b = cs ! i"
      "r - weight c - sum_list (map weight (take (Suc i) cs)) \<le> 0"
      "\<forall>k < i. 0 < r - weight c - sum_list (map weight (take (Suc k) cs))" by blast
    have "\<forall>k < Suc i. 0 < r - sum_list (map weight (take (Suc k) (c # cs)))"
    proof (intro allI impI)
      fix k assume "k < Suc i"
      show "0 < r - sum_list (map weight (take (Suc k) (c # cs)))"
      proof (cases k)
        case 0
        with False show ?thesis by simp
      next
        case (Suc k')
        with \<open>k < Suc i\<close> have "k' < i" by simp
        with i(4) have "0 < r - weight c - sum_list (map weight (take (Suc k') cs))" by blast
        with Suc show ?thesis by (simp add: algebra_simps)
      qed
    qed
    with i show ?thesis by (intro exI[of _ "Suc i"]) (simp add: algebra_simps)
  qed
qed

lemma weightedWalk_mem: "weightedWalk cs r = Some b \<Longrightarrow> b \<in> set cs"
  by (induction cs arbitrary: r) (auto simp: Let_def split: if_splits)

lemma weightedRandomSelect_cases:
  "cs \<noteq> [] \<Longrightarrow>
   weightedRandomSelect cs rnd =
     Some (if totalWeightOf cs = 0 then hd cs
           else (case weightedWalk cs (rnd * totalWeightOf cs) of
                   Some b \<Rightarrow> b | None \<Rightarrow> last cs))"
  by (simp add: weightedRandomSelect_def Let_def js_index_first js_index_last split: option.splits)

lemma weightedRandomSelect_mem:
  "cs \<noteq> [] \<Longrightarrow> \<exists>b \<in> set cs. weightedRandomSelect cs rnd = Some b"
  by (auto simp: weightedRandomSelect_cases dest: weightedWalk_mem split: option.splits)

lemma getRegionalBackends_subset: "set (getRegionalBackends bs c) \<subseteq> set bs"
  by (auto simp: getRegionalBackends_def Let_def split: option.splits)

lemma candidateBackendsOf_subset: "set (candidateBackendsOf bs c) \<subseteq> set bs"
  using getRegionalBackends_subset by (auto simp: candidateBackendsOf_def Let_def)

lemma candidateBackendsOf_nonempty: "bs \<noteq> [] \<Longrightarrow> candidateBackendsOf bs c \<noteq> []"
  by (auto simp: candidateBackendsOf_def Let_def)

lemma transientWeights_same_target:
  "b' \<in> set (transientWeights cs ms) \<Longrightarrow> \<exists>b \<in> set cs. url b' = url b \<and> region b' = region b"
  by (auto simp: transientWeights_def Let_def)

lemma transientWeights_nonempty: "cs \<noteq> [] \<Longrightarrow> transientWeights cs ms \<noteq> []"
  by (simp add: transientWeights_def Let_def)

lemma selectByPerformance_target:
  assumes "cs \<noteq> []"
  shows "\<exists>b' b. selectByPerformance cs ms rnd = Some b' \<and> b \<in> set cs
           \<and> url b' = url b \<and> region b' = region b"
proof -
  from weightedRandomSelect_mem[OF transientWeights_nonempty[OF assms]]
  obtain b' where "b' \<in> set (transientWeights cs ms)"
    "weightedRandomSelect (transientWeights cs ms) rnd = Some b'" by blast
  with transientWeights_same_target show ?thesis
    unfolding selectByPerformance_def by blast
qed

lemma weightedWalk_complete:
  "i < length cs \<Longrightarrow> r - sum_list (map weight (take (Suc i) cs)) \<le> 0 \<Longrightarrow>
   (\<forall>k < i. 0 < r - sum_list (map weight (take (Suc k) cs))) \<Longrightarrow>
   weightedWalk cs r = Some (cs ! i)"
proof (induction cs arbitrary: r i)
  case Nil
  then show ?case by simp
next
  case (Cons c cs)
  show ?case
  proof (cases i)
    case 0
    with Cons.prems(2) show ?thesis by (simp add: Let_def)
  next
    case (Suc i')
    with Cons.prems(3) have "0 < r - sum_list (map weight (take (Suc 0) (c # cs)))" by blast
    then have pos: "\<not> r - weight c \<le> 0" by simp
    from Suc Cons.prems(1) have len: "i' < length cs" by simp
    from Suc Cons.prems(2) have le: "r - weight c - sum_list (map weight (take (Suc i') cs)) \<le> 0"
      by (simp add: algebra_simps)
    have before: "\<forall>k < i'. 0 < r - weight c - sum_list (map weight (take (Suc k) cs))"
    proof (intro allI impI)
      fix k assume "k < i'"
      with Suc have "Suc k < i" by simp
      with Cons.prems(3) have "0 < r - sum_list (map weight (take (Suc (Suc k)) (c # cs)))"
        by blast
      then show "0 < r - weight c - sum_list (map weight (take (Suc k) cs))"
        by (simp add: algebra_simps)
    qed
    from Cons.IH[OF len le before] pos Suc show ?thesis by (simp add: Let_def)
  qed
qed

lemma weightedWalk_Some_iff:
  "weightedWalk cs r = Some b \<longleftrightarrow>
     (\<exists>i < length cs. b = cs ! i
        \<and> r - sum_list (map weight (take (Suc i) cs)) \<le> 0
        \<and> (\<forall>k < i. 0 < r - sum_list (map weight (take (Suc k) cs))))"
  using weightedWalk_stops weightedWalk_complete by blast

lemma weightedWalk_None_iff:
  "weightedWalk cs r = None \<longleftrightarrow>
     (\<forall>k < length cs. 0 < r - sum_list (map weight (take (Suc k) cs)))"
proof (induction cs arbitrary: r)
  case Nil
  then show ?case by simp
next
  case (Cons c cs)
  show ?case
  proof (cases "r - weight c \<le> 0")
    case True
    then have "\<not> (\<forall>k < length (c # cs). 0 < r - sum_list (map weight (take (Suc k) (c # cs))))"
      by (auto intro!: exI[of _ 0])
    with True show ?thesis by (simp add: Let_def)
  next
    case False
    have "(\<forall>k < length (c # cs). 0 < r - sum_list (map weight (take (Suc k) (c # cs))))
          \<longleftrightarrow> (\<forall>k < length cs. 0 < r - weight c - sum_list (map weight (take (Suc k) cs)))"
    proof
      assume a: "\<forall>k < length (c # cs). 0 < r - sum_list (map weight (take (Suc k) (c # cs)))"
      show "\<forall>k < length cs. 0 < r - weight c - sum_list (map weight (take (Suc k) cs))"
      proof (intro allI impI)
        fix k assume "k < length cs"
        then have "Suc k < length (c # cs)" by simp
        with a have "0 < r - sum_list (map weight (take (Suc (Suc k)) (c # cs)))" by blast
        then show "0 < r - weight c - sum_list (map weight (take (Suc k) cs))"
          by (simp add: algebra_simps)
      qed
    next
      assume a: "\<forall>k < length cs. 0 < r - weight c - sum_list (map weight (take (Suc k) cs))"
      show "\<forall>k < length (c # cs). 0 < r - sum_list (map weight (take (Suc k) (c # cs)))"
      proof (intro allI impI)
        fix k assume k: "k < length (c # cs)"
        show "0 < r - sum_list (map weight (take (Suc k) (c # cs)))"
        proof (cases k)
          case 0
          with False show ?thesis by simp
        next
          case (Suc k')
          with k have "k' < length cs" by simp
          with a have "0 < r - weight c - sum_list (map weight (take (Suc k') cs))" by blast
          with Suc show ?thesis by (simp add: algebra_simps)
        qed
      qed
    qed
    with False Cons.IH[of "r - weight c"] show ?thesis by (simp add: Let_def)
  qed
qed

lemma getRegionalBackends_single:
  "getRegionalBackends [c] x = [] \<or> getRegionalBackends [c] x = [c]"
  by (simp add: getRegionalBackends_def Let_def split: option.splits)

lemma candidateBackendsOf_single: "candidateBackendsOf [c] x = [c]"
  using getRegionalBackends_single[of c x] by (auto simp: candidateBackendsOf_def Let_def)

text \<open>The list the weighted draw of \<open>selectBackend\<close> runs over: the candidates after the
  regional preference, with the transient weights when metrics are there.\<close>

lemma selectBackend_draw:
  "selectBackend candidates requestInfo ms rnd =
     (if length candidates = 1 then js_index candidates 0
      else weightedRandomSelect
             (case ms of
                None \<Rightarrow> candidateBackendsOf candidates (country requestInfo)
              | Some m \<Rightarrow>
                  if m = [] then candidateBackendsOf candidates (country requestInfo)
                  else transientWeights (candidateBackendsOf candidates (country requestInfo)) m)
             rnd)"
  by (simp add: selectBackend_def Let_def selectByPerformance_def split: option.splits)

lemma selectBackend_from_pool:
  assumes "candidates \<noteq> []"
  shows "\<exists>b' b. selectBackend candidates requestInfo ms rnd = Some b'
           \<and> b \<in> set (candidateBackendsOf candidates (country requestInfo))
           \<and> url b' = url b \<and> region b' = region b"
proof (cases "length candidates = 1")
  case True
  then obtain c where c: "candidates = [c]" by (cases candidates) simp_all
  then have "selectBackend candidates requestInfo ms rnd = Some c"
    by (simp add: selectBackend_def js_index_def)
  with c show ?thesis by (simp add: candidateBackendsOf_single)
next
  case False
  let ?pool = "candidateBackendsOf candidates (country requestInfo)"
  have ne: "?pool \<noteq> []" by (rule candidateBackendsOf_nonempty[OF assms])
  have plain: "\<exists>b \<in> set ?pool. weightedRandomSelect ?pool rnd = Some b"
    by (rule weightedRandomSelect_mem[OF ne])
  show ?thesis
  proof (cases ms)
    case None
    with False plain show ?thesis by (auto simp: selectBackend_def Let_def)
  next
    case (Some m)
    show ?thesis
    proof (cases "length m > 0")
      case True
      from selectByPerformance_target[OF ne, of m rnd] obtain b' b where
        "selectByPerformance ?pool m rnd = Some b'" "b \<in> set ?pool"
        "url b' = url b" "region b' = region b" by blast
      with False Some True show ?thesis by (auto simp: selectBackend_def Let_def)
    next
      case F2: False
      with False Some plain show ?thesis by (auto simp: selectBackend_def Let_def)
    qed
  qed
qed

text \<open>
  Claim C10.  For a non-empty candidate list, whatever the weights, the metrics and the
  random draw, \<open>selectBackend\<close> returns a defined backend (no read outside the list) whose
  url and region are those of an element of the list: the only candidate, or the weighted
  draw over the candidates left by the regional preference (with their transient weights
  when metrics are there).  The weighted draw over a non-empty list returns the first
  element when the total weight is 0, otherwise the element at which the walk stops,
  otherwise the last element; the walk stops at an element exactly when it is the first
  one at which the remaining draw is at most 0, and runs to the end exactly when the
  remaining draw stays positive.  Termination is by construction: every function is total.
\<close>

theorem selectBackend_safe:
  assumes "candidates \<noteq> []"
  shows "(\<exists>b' b. selectBackend candidates requestInfo ms rnd = Some b' \<and> b \<in> set candidates
             \<and> url b' = url b \<and> region b' = region b)
       \<and> selectBackend candidates requestInfo ms rnd =
           (if length candidates = 1 then Some (hd candidates)
            else weightedRandomSelect
                   (case ms of
                      None \<Rightarrow> candidateBackendsOf candidates (country requestInfo)
                    | Some m \<Rightarrow>
                        if m = [] then candidateBackendsOf candidates (country requestInfo)
                        else transientWeights
                               (candidateBackendsOf candidates (country requestInfo)) m)
                   rnd)
       \<and> (\<forall>cs. cs \<noteq> [] \<longrightarrow>
             weightedRandomSelect cs rnd =
               Some (if totalWeightOf cs = 0 then hd cs
                     else (case weightedWalk cs (rnd * totalWeightOf cs) of
                             Some b \<Rightarrow> b | None \<Rightarrow> last cs)))
       \<and> (\<forall>cs r b. weightedWalk cs r = Some b \<longleftrightarrow>
             (\<exists>i < length cs. b = cs ! i
                \<and> r - sum_list (map weight (take (Suc i) cs)) \<le> 0
                \<and> (\<forall>k < i. 0 < r - sum_list (map weight (take (Suc k) cs)))))
       \<and> (\<forall>cs r. weightedWalk cs r = None \<longleftrightarrow>
             (\<forall>k < length cs. 0 < r - sum_list (map weight (take (Suc k) cs))))"
proof (intro conjI allI impI)
  from selectBackend_from_pool[OF assms, of requestInfo ms rnd]
    candidateBackendsOf_subset[of candidates "country requestInfo"]
  show "\<exists>b' b. selectBackend candidates requestInfo ms rnd = Some b' \<and> b \<in> set candidates
             \<and> url b' = url b \<and> region b' = region b"
    by blast
next
  show "selectBackend candidates requestInfo ms rnd =
           (if length candidates = 1 then Some (hd candidates)
            else weightedRandomSelect
                   (case ms of
                      None \<Rightarrow> candidateBackendsOf candidates (country requestInfo)
                    | Some m \<Rightarrow>
                        if m = [] then candidateBackendsOf candidates (country requestInfo)
                        else transientWeights
                               (candidateBackendsOf candidates (country requestInfo)) m)
                   rnd)"
    using assms by (simp add: selectBackend_draw js_index_first)
next
  fix cs :: "BackendConfig list" assume "cs \<noteq> []"
  then show "weightedRandomSelect cs rnd =
               Some (if totalWeightOf cs = 0 then hd cs
                     else (case weightedWalk cs (rnd * totalWeightOf cs) of
                             Some b \<Rightarrow> b | None \<Rightarrow> last cs))"
    by (rule weightedRandomSelect_cases)
next
  fix cs r b
  show "weightedWalk cs r = Some b \<longleftrightarrow>
             (\<exists>i < length cs. b = cs ! i
                \<and> r - sum_list (map weight (take (Suc i) cs)) \<le> 0
                \<and> (\<forall>k < i. 0 < r - sum_list (map weight (take (Suc k) cs))))"
    by (rule weightedWalk_Some_iff)
next
  fix cs r
  show "weightedWalk cs r = None \<longleftrightarrow>
             (\<forall>k < length cs. 0 < r - sum_list (map weight (take (Suc k) cs)))"
    by (rule weightedWalk_None_iff)
qed

lemma draw_first:
  "selectBackend [backendA, backendB] (contextFrom ''unknown'') None (1 / 4) = Some backendA"
  by code_simp

lemma draw_second:
  "selectBackend [backendA, backendB] (contextFrom ''unknown'') None (3 / 4) = Some backendB"
  by code_simp

lemma draw_walk:
  "totalWeightOf [backendA, backendB] = 2
   \<and> weightedWalk [backendA, backendB] (1 / 4 * 2) = Some backendA
   \<and> weightedWalk [backendA, backendB] (3 / 4 * 2) = Some backendB"
  by code_simp

theorem selectBackend_safe_witness:
  "[backendA, backendB] \<noteq> []
   \<and> selectBackend [backendA, backendB] (contextFrom ''unknown'') None (1 / 4) = Some backendA
   \<and> selectBackend [backendA, backendB] (contextFrom ''unknown'') None (3 / 4) = Some backendB
   \<and> totalWeightOf [backendA, backendB] = 2
   \<and> weightedWalk [backendA, backendB] (1 / 4 * 2) = Some backendA
   \<and> weightedWalk [backendA, backendB] (3 / 4 * 2) = Some backendB
   \<and> (\<exists>b' b. selectBackend [backendA, backendB] (contextFrom ''unknown'') None (3 / 4) = Some b'
          \<and> b \<in> set [backendA, backendB] \<and> url b' = url b \<and> region b' = region b)"
proof -
  have ne: "[backendA, backendB] \<noteq> []" by simp
  from selectBackend_safe[OF ne, of "contextFrom ''unknown''" None "3 / 4"]
  have m: "\<exists>b' b. selectBackend [backendA, backendB] (contextFrom ''unknown'') None (3 / 4)
                    = Some b'
             \<and> b \<in> set [backendA, backendB] \<and> url b' = url b \<and> region b' = region b"
    by (rule conjunct1)
  from ne draw_first draw_second draw_walk m show ?thesis by blast
qed

section \<open>Regional narrowing\<close>

lemma startsWith_iff: "startsWith s p \<longleftrightarrow> (\<exists>post. s = p @ post)"
  by (induction s p rule: startsWith.induct) auto

lemma js_includes_iff: "js_includes s sub \<longleftrightarrow> (\<exists>pre post. s = pre @ sub @ post)"
proof (induction s)
  case Nil
  show ?case by (cases sub) simp_all
next
  case (Cons c s)
  show ?case
  proof
    assume "js_includes (c # s) sub"
    then consider "startsWith (c # s) sub" | "js_includes s sub" by (auto split: if_splits)
    then show "\<exists>pre post. c # s = pre @ sub @ post"
    proof cases
      case 1
      then obtain post where "c # s = sub @ post" by (auto simp: startsWith_iff)
      then have "c # s = [] @ sub @ post" by simp
      then show ?thesis by blast
    next
      case 2
      with Cons.IH obtain pre post where "s = pre @ sub @ post" by blast
      then have "c # s = (c # pre) @ sub @ post" by simp
      then show ?thesis by blast
    qed
  next
    assume "\<exists>pre post. c # s = pre @ sub @ post"
    then obtain pre post where eq: "c # s = pre @ sub @ post" by blast
    show "js_includes (c # s) sub"
    proof (cases pre)
      case Nil
      with eq have "startsWith (c # s) sub" by (auto simp: startsWith_iff)
      then show ?thesis by simp
    next
      case (Cons d pre')
      with eq have "s = pre' @ sub @ post" by simp
      with Cons.IH have "js_includes s sub" by blast
      then show ?thesis by simp
    qed
  qed
qed

lemma region_of_empty: "map_of REGION_MAP (toUpperCase []) = None"
  by code_simp

lemma region_of_unknown: "map_of REGION_MAP (toUpperCase ''unknown'') = None"
  by code_simp

lemma region_key_known:
  assumes "map_of REGION_MAP (toUpperCase c) = Some r"
  shows "c \<noteq> [] \<and> c \<noteq> ''unknown''"
  using assms region_of_empty region_of_unknown by auto

lemma getRegionalBackends_mapped:
  assumes "map_of REGION_MAP (toUpperCase c) = Some r"
  shows "getRegionalBackends bs c =
     (if filter (exactMatch r) bs \<noteq> [] then filter (exactMatch r) bs
      else filter (partialMatch r) bs)"
  using assms region_key_known[OF assms]
  by (simp add: getRegionalBackends_def Let_def)

lemma partialMatch_iff:
  "partialMatch r b \<longleftrightarrow>
     (\<exists>part \<in> set (js_split CHR ''-'' r). \<exists>pre post. toLowerCase (region b) = pre @ part @ post)"
  by (simp add: partialMatch_def Let_def list_ex_iff js_includes_iff)

lemma computeScores_single:
  "\<exists>s. computeScores [b] ms [] = [(url b, s)]"
  by (simp split: option.splits)

lemma selectByPerformance_single: "selectByPerformance [b] ms rnd = Some (b\<lparr>weight := 1\<rparr>)"
proof -
  obtain s where s: "computeScores [b] ms [] = [(url b, s)]"
    using computeScores_single by blast
  have "max 1 (of_int \<lfloor>s + 1 - scoreOr50 [(url b, s)] (url b)\<rfloor>) = (1 :: rat)"
    by (simp add: scoreOr50_def)
  then have tw: "transientWeights [b] ms = [b\<lparr>weight := 1\<rparr>]"
    by (simp add: transientWeights_def s mathMax_def Let_def del: computeScores.simps)
  show ?thesis
    unfolding selectByPerformance_def tw
    by (simp add: weightedRandomSelect_def Let_def js_index_def split: option.splits)
qed

lemma weightedRandomSelect_single: "weightedRandomSelect [b] rnd = Some b"
  by (simp add: weightedRandomSelect_def Let_def js_index_def split: option.splits)

lemma candidates_JP: "candidateBackendsOf [backendA, backendB] ''JP'' = [backendB]"
  by code_simp

lemma select_JP: "selectBackend [backendA, backendB] (contextFrom ''JP'') ms rnd = Some backendB"
proof -
  have w1: "backendB\<lparr>weight := 1\<rparr> = backendB" by (simp add: backendB_def)
  show ?thesis
    by (cases ms)
      (simp_all add: selectBackend_def contextFrom_def candidates_JP Let_def
        selectByPerformance_single weightedRandomSelect_single w1)
qed

lemma candidates_JP_reversed: "candidateBackendsOf [backendB, backendA] ''JP'' = [backendB]"
  by code_simp

lemma select_JP_reversed:
  "selectBackend [backendB, backendA] (contextFrom ''JP'') ms rnd = Some backendB"
proof -
  have w1: "backendB\<lparr>weight := 1\<rparr> = backendB" by (simp add: backendB_def)
  show ?thesis
    by (cases ms)
      (simp_all add: selectBackend_def contextFrom_def candidates_JP_reversed Let_def
        selectByPerformance_single weightedRandomSelect_single w1)
qed

text \<open>
  Claim C6.  When the country maps, after \<open>toUpperCase\<close>, to a preferred region, the
  regional backends are the candidates whose lower-cased region equals the lower-cased
  preferred region; only if there is none, the candidates whose lower-cased region contains
  one of the parts of the preferred region split on \<open>-\<close>; if there is none either, all
  candidates are used; and what \<open>selectBackend\<close> returns has the url and region of a
  member of that narrowed set.  For A (us-west) and B (asia-east) with country JP, in
  either order, the narrowed set is [B] and every selection, with or without metrics and
  for every draw, returns B.
\<close>

theorem regional_narrowing:
  "(map_of REGION_MAP (toUpperCase (country requestInfo)) = Some preferredRegion \<longrightarrow>
      (let exact = filter (\<lambda>b. toLowerCase (region b) = toLowerCase preferredRegion) candidates;
           partial = filter (\<lambda>b. \<exists>part \<in> set (js_split CHR ''-'' preferredRegion).
                                   \<exists>pre post. toLowerCase (region b) = pre @ part @ post) candidates;
           narrowed = (if exact \<noteq> [] then exact else if partial \<noteq> [] then partial
                       else candidates)
       in getRegionalBackends candidates (country requestInfo)
            = (if exact \<noteq> [] then exact else partial)
          \<and> candidateBackendsOf candidates (country requestInfo) = narrowed
          \<and> (candidates \<noteq> [] \<longrightarrow>
               (\<exists>b' b. selectBackend candidates requestInfo ms rnd = Some b'
                   \<and> b \<in> set narrowed \<and> url b' = url b \<and> region b' = region b))))
   \<and> map_of REGION_MAP (toUpperCase ''JP'') = Some ''asia-northeast''
   \<and> candidateBackendsOf [backendA, backendB] ''JP'' = [backendB]
   \<and> (\<forall>ms rnd. selectBackend [backendA, backendB] (contextFrom ''JP'') ms rnd = Some backendB)
   \<and> candidateBackendsOf [backendB, backendA] ''JP'' = [backendB]
   \<and> (\<forall>ms rnd. selectBackend [backendB, backendA] (contextFrom ''JP'') ms rnd = Some backendB)"
proof (intro conjI impI allI)
  assume m: "map_of REGION_MAP (toUpperCase (country requestInfo)) = Some preferredRegion"
  have e: "exactMatch preferredRegion = (\<lambda>b. toLowerCase (region b) = toLowerCase preferredRegion)"
    by (simp add: exactMatch_def fun_eq_iff)
  have p: "partialMatch preferredRegion = (\<lambda>b. \<exists>part \<in> set (js_split CHR ''-'' preferredRegion).
                                   \<exists>pre post. toLowerCase (region b) = pre @ part @ post)"
    by (simp add: partialMatch_iff fun_eq_iff)
  define exact where
    "exact = filter (\<lambda>b. toLowerCase (region b) = toLowerCase preferredRegion) candidates"
  define partial where
    "partial = filter (\<lambda>b. \<exists>part \<in> set (js_split CHR ''-'' preferredRegion).
                                   \<exists>pre post. toLowerCase (region b) = pre @ part @ post) candidates"
  define narrowed where
    "narrowed = (if exact \<noteq> [] then exact else if partial \<noteq> [] then partial else candidates)"
  have g: "getRegionalBackends candidates (country requestInfo)
             = (if exact \<noteq> [] then exact else partial)"
    unfolding getRegionalBackends_mapped[OF m] e p exact_def partial_def by simp
  have c: "candidateBackendsOf candidates (country requestInfo) = narrowed"
    unfolding candidateBackendsOf_def g narrowed_def by (simp add: Let_def)
  have s: "candidates \<noteq> [] \<longrightarrow>
               (\<exists>b' b. selectBackend candidates requestInfo ms rnd = Some b'
                   \<and> b \<in> set narrowed \<and> url b' = url b \<and> region b' = region b)"
    using selectBackend_from_pool[of candidates requestInfo ms rnd] unfolding c by blast
  from g c s show "let exact = filter (\<lambda>b. toLowerCase (region b) = toLowerCase preferredRegion) candidates;
           partial = filter (\<lambda>b. \<exists>part \<in> set (js_split CHR ''-'' preferredRegion).
                                   \<exists>pre post. toLowerCase (region b) = pre @ part @ post) candidates;
           narrowed = (if exact \<noteq> [] then exact else if partial \<noteq> [] then partial
                       else candidates)
       in getRegionalBackends candidates (country requestInfo)
            = (if exact \<noteq> [] then exact else partial)
          \<and> candidateBackendsOf candidates (country requestInfo) = narrowed
          \<and> (candidates \<noteq> [] \<longrightarrow>
               (\<exists>b' b. selectBackend candidates requestInfo ms rnd = Some b'
                   \<and> b \<in> set narrowed \<and> url b' = url b \<and> region b' = region b))"
    unfolding Let_def exact_def partial_def narrowed_def by blast
next
  show "map_of REGION_MAP (toUpperCase ''JP'') = Some ''asia-northeast''"
    by code_simp
next
  show "candidateBackendsOf [backendA, backendB] ''JP'' = [backendB]" by (rule candidates_JP)
next
  fix ms rnd
  show "selectBackend [backendA, backendB] (contextFrom ''JP'') ms rnd = Some backendB"
    by (rule select_JP)
next
  show "candidateBackendsOf [backendB, backendA] ''JP'' = [backendB]"
    by (rule candidates_JP_reversed)
next
  fix ms rnd
  show "selectBackend [backendB, backendA] (contextFrom ''JP'') ms rnd = Some backendB"
    by (rule select_JP_reversed)
qed

lemma region_jp_context:
  "map_of REGION_MAP (toUpperCase (country (contextFrom ''jp''))) = Some ''asia-northeast''"
  by code_simp

theorem regional_narrowing_witness:
  "map_of REGION_MAP (toUpperCase (country (contextFrom ''jp''))) = Some ''asia-northeast''
   \<and> [backendB, backendA] \<noteq> []
   \<and> getRegionalBackends [backendB, backendA] (country (contextFrom ''jp'')) = [backendB]
   \<and> candidateBackendsOf [backendB, backendA] (country (contextFrom ''jp'')) = [backendB]
   \<and> (\<exists>b'. selectBackend [backendB, backendA] (contextFrom ''jp'') None (9 / 10) = Some b'
          \<and> url b' = url backendB \<and> region b' = region backendB)"
  using regional_narrowing [of "contextFrom ''jp''" "''asia-northeast''"
      "[backendB, backendA]" None "9 / 10"] region_jp_context
  by (simp add: Let_def js_includes_iff[symmetric] backendA_def backendB_def
      toLowerCase_def toLowerChar_def)

section \<open>The health and metrics records\<close>

lemma list_all_update:
  "list_all (\<lambda>(k, v). P v) al \<Longrightarrow> P v \<Longrightarrow> list_all (\<lambda>(k, v). P v) (AList.update k v al)"
  by (induction al) auto

lemma list_all_map_of:
  "list_all (\<lambda>(k, v). P v) al \<Longrightarrow> map_of al k = Some v \<Longrightarrow> P v"
  by (induction al) (auto split: if_splits)

lemma allHealth_lookup:
  "allHealth P st \<Longrightarrow> map_of (healthStatus st) u = Some health \<Longrightarrow> P health"
  unfolding allHealth_def by (rule list_all_map_of)

lemma allMetrics_lookup:
  "allMetrics P st \<Longrightarrow> map_of (metrics st) u = Some m \<Longrightarrow> P m"
  unfolding allMetrics_def by (rule list_all_map_of)

lemma bumpFailures_consistent: "healthConsistent config (bumpFailures config health)"
  by (simp add: healthConsistent_def bumpFailures_def Let_def)

lemma reset_consistent:
  "1 \<le> circuitBreakerThreshold config \<Longrightarrow>
   healthConsistent config (health\<lparr>isHealthy := True, consecutiveFailures := 0\<rparr>)"
  by (simp add: healthConsistent_def)

lemma registerBackend_all:
  "P initialHealth \<Longrightarrow> Q initialMetrics \<Longrightarrow> allHealth P st \<and> allMetrics Q st \<Longrightarrow>
   allHealth P (registerBackend st backend) \<and> allMetrics Q (registerBackend st backend)"
  by (simp add: registerBackend_def allHealth_def allMetrics_def list_all_update)

lemma foldl_registerBackend_all:
  "P initialHealth \<Longrightarrow> Q initialMetrics \<Longrightarrow> allHealth P st \<and> allMetrics Q st \<Longrightarrow>
   allHealth P (foldl registerBackend st bs) \<and> allMetrics Q (foldl registerBackend st bs)"
proof (induction bs arbitrary: st)
  case Nil
  then show ?case by simp
next
  case (Cons b bs)
  from Cons.prems have "allHealth P (registerBackend st b) \<and> allMetrics Q (registerBackend st b)"
    by (intro registerBackend_all)
  with Cons.prems(1,2) have
    "allHealth P (foldl registerBackend (registerBackend st b) bs)
     \<and> allMetrics Q (foldl registerBackend (registerBackend st b) bs)"
    by (intro Cons.IH)
  then show ?case by simp
qed

lemma initState_all:
  assumes "P initialHealth" "Q initialMetrics"
  shows "allHealth P (initState config) \<and> allMetrics Q (initState config)"
proof -
  have "allHealth P emptyState \<and> allMetrics Q emptyState"
    by (simp add: emptyState_def allHealth_def allMetrics_def)
  with assms show ?thesis
    unfolding initState_def by (intro foldl_registerBackend_all)
qed

lemma markBackendHealthy_consistent:
  "1 \<le> circuitBreakerThreshold config \<Longrightarrow> allHealth (healthConsistent config) st \<Longrightarrow>
   allHealth (healthConsistent config) (markBackendHealthy u st)"
  by (auto simp: markBackendHealthy_def allHealth_def reset_consistent
      intro!: list_all_update split: option.splits)

lemma markBackendUnhealthy_consistent:
  "allHealth (healthConsistent config) st \<Longrightarrow>
   allHealth (healthConsistent config) (markBackendUnhealthy config u st)"
  by (auto simp: markBackendUnhealthy_def allHealth_def bumpFailures_consistent
      intro!: list_all_update split: option.splits)

lemma lastCheck_consistent:
  "healthConsistent config (health\<lparr>lastCheck := t\<rparr>) = healthConsistent config health"
  by (simp add: healthConsistent_def)

lemma avg_consistent:
  "healthConsistent config (health\<lparr>avgResponseTime := a\<rparr>) = healthConsistent config health"
  by (simp add: healthConsistent_def)

lemma checkBackendHealth_consistent:
  assumes "1 \<le> circuitBreakerThreshold config" "allHealth (healthConsistent config) st"
  shows "allHealth (healthConsistent config) (checkBackendHealth w config backend st)"
proof (cases "map_of (healthStatus st) (url backend)")
  case None
  with assms show ?thesis by (simp add: checkBackendHealth_def)
next
  case (Some health)
  have "healthConsistent config
          (case fetchResult w (fetchCalls st) (probeArgs backend) of
             Responded response \<Rightarrow>
               if ok response then health\<lparr>isHealthy := True, consecutiveFailures := 0\<rparr>
               else bumpFailures config health
           | Threw error \<Rightarrow> bumpFailures config health)"
    using assms(1) by (simp add: reset_consistent bumpFailures_consistent split: FetchOutcome.splits)
  with Some assms(2) show ?thesis
    by (simp add: checkBackendHealth_def doFetch_def doNow_def Let_def allHealth_def
        lastCheck_consistent list_all_update)
qed

lemma updateMetrics_healthStatus:
  "healthStatus (updateMetrics u d s st) =
     (case map_of (healthStatus st) u of
        None \<Rightarrow> healthStatus st
      | Some health \<Rightarrow>
          AList.update u (health\<lparr>avgResponseTime := (avgResponseTime health + of_int d) / 2\<rparr>)
            (healthStatus st))"
  by (simp add: updateMetrics_def Let_def split: option.splits)

lemma updateMetrics_consistent:
  assumes "allHealth (healthConsistent config) st"
  shows "allHealth (healthConsistent config) (updateMetrics u d s st)"
proof (cases "map_of (healthStatus st) u")
  case None
  with assms show ?thesis by (simp add: allHealth_def updateMetrics_healthStatus)
next
  case (Some health)
  from allHealth_lookup[OF assms Some] have "healthConsistent config health" .
  with Some assms show ?thesis
    by (simp add: allHealth_def updateMetrics_healthStatus avg_consistent list_all_update)
qed

lemma applyEvent_consistent:
  "1 \<le> circuitBreakerThreshold config \<Longrightarrow> allHealth (healthConsistent config) st \<Longrightarrow>
   allHealth (healthConsistent config) (applyEvent w config st ev)"
  by (cases ev)
    (simp_all add: markBackendHealthy_consistent markBackendUnhealthy_consistent
      checkBackendHealth_consistent updateMetrics_consistent)

lemma runEvents_consistent:
  assumes "1 \<le> circuitBreakerThreshold config"
  shows "allHealth (healthConsistent config) (runEvents w config evs)"
proof -
  have "allHealth (healthConsistent config) (foldl (applyEvent w config) st evs)"
    if "allHealth (healthConsistent config) st" for st
    using that by (induction evs arbitrary: st) (simp_all add: applyEvent_consistent assms)
  moreover have "allHealth (healthConsistent config) (initState config)"
    using initState_all[of "healthConsistent config" "\<lambda>m. True"] assms
    by (simp add: initialHealth_def healthConsistent_def)
  ultimately show ?thesis by (simp add: runEvents_def)
qed

lemma markBackendUnhealthy_rederives:
  assumes "map_of (healthStatus st) u = Some health"
  shows "map_of (healthStatus (markBackendUnhealthy config u st)) u =
           Some (health\<lparr>consecutiveFailures := consecutiveFailures health + 1,
                        isHealthy := int (consecutiveFailures health + 1)
                                       < circuitBreakerThreshold config\<rparr>)"
  using assms by (simp add: markBackendUnhealthy_def bumpFailures_def Let_def update_conv')
lemma foldl_registerBackend_lookup:
  "map_of (healthStatus (foldl registerBackend st bs)) u =
     (if u \<in> url ` set bs then Some initialHealth else map_of (healthStatus st) u)
   \<and> map_of (metrics (foldl registerBackend st bs)) u =
     (if u \<in> url ` set bs then Some initialMetrics else map_of (metrics st) u)"
  by (induction bs arbitrary: st) (auto simp: registerBackend_def update_conv')

lemma initState_lookup:
  "backend \<in> set (backends config) \<Longrightarrow>
   map_of (healthStatus (initState config)) (url backend) = Some initialHealth
   \<and> map_of (metrics (initState config)) (url backend) = Some initialMetrics"
  by (simp add: initState_def foldl_registerBackend_lookup)

lemma markBackendHealthy_resets:
  assumes "map_of (healthStatus st) u = Some health"
  shows "map_of (healthStatus (markBackendHealthy u st)) u =
           Some (health\<lparr>isHealthy := True, consecutiveFailures := 0\<rparr>)"
  using assms by (simp add: markBackendHealthy_def update_conv')

lemma checkBackendHealth_outcome:
  assumes "map_of (healthStatus st) (url backend) = Some health"
  shows "map_of (healthStatus (checkBackendHealth w config backend st)) (url backend) =
           Some (case fetchResult w (fetchCalls st) (probeArgs backend) of
                   Responded response \<Rightarrow>
                     if ok response
                     then health\<lparr>isHealthy := True, consecutiveFailures := 0,
                                 lastCheck := dateNow w (nowCalls st)\<rparr>
                     else health\<lparr>consecutiveFailures := consecutiveFailures health + 1,
                                 isHealthy := int (consecutiveFailures health + 1)
                                                < circuitBreakerThreshold config,
                                 lastCheck := dateNow w (nowCalls st)\<rparr>
                 | Threw error \<Rightarrow>
                     health\<lparr>consecutiveFailures := consecutiveFailures health + 1,
                            isHealthy := int (consecutiveFailures health + 1)
                                           < circuitBreakerThreshold config,
                            lastCheck := dateNow w (nowCalls st)\<rparr>)"
  using assms
  by (simp add: checkBackendHealth_def doFetch_def doNow_def bumpFailures_def Let_def
      update_conv' split: FetchOutcome.splits)

text \<open>
  Claim C3, as amended.  With a circuit-breaker threshold of at least 1, every health
  record satisfies \<open>isHealthy \<longleftrightarrow> consecutiveFailures < circuitBreakerThreshold\<close> after
  the constructor and after every sequence of MarkHealthy, MarkFailure, probe outcomes
  and metrics updates.  MarkFailure and a failed probe (an exception or a response that
  is not 2xx) add 1 to the counter and set \<open>isHealthy\<close> from the new counter in the same
  step; MarkHealthy and a successful probe set the counter to 0 and \<open>isHealthy\<close> to true;
  a probe also sets \<open>lastCheck\<close>; and the constructor gives every configured backend the
  record with counter 0 and \<open>isHealthy\<close> true.
\<close>

theorem health_invariant:
  assumes "1 \<le> circuitBreakerThreshold config"
  shows "(\<forall>u (health :: BackendHealth).
            map_of (healthStatus (runEvents w config evs)) u = Some health \<longrightarrow>
            (isHealthy health
               \<longleftrightarrow> int (consecutiveFailures health) < circuitBreakerThreshold config))
       \<and> (\<forall>(st :: ProxyState) u (health :: BackendHealth).
            map_of (healthStatus st) u = Some health \<longrightarrow>
            map_of (healthStatus (markBackendUnhealthy config u st)) u =
              Some (health\<lparr>consecutiveFailures := consecutiveFailures health + 1,
                           isHealthy := int (consecutiveFailures health + 1)
                                          < circuitBreakerThreshold config\<rparr>)
            \<and> map_of (healthStatus (markBackendHealthy u st)) u =
                Some (health\<lparr>isHealthy := True, consecutiveFailures := 0\<rparr>))
       \<and> (\<forall>(st :: ProxyState) (backend :: BackendConfig) (health :: BackendHealth).
            map_of (healthStatus st) (url backend) = Some health \<longrightarrow>
            map_of (healthStatus (checkBackendHealth w config backend st)) (url backend) =
              Some (case fetchResult w (fetchCalls st) (probeArgs backend) of
                      Responded response \<Rightarrow>
                        if ok response
                        then health\<lparr>isHealthy := True, consecutiveFailures := 0,
                                    lastCheck := dateNow w (nowCalls st)\<rparr>
                        else health\<lparr>consecutiveFailures := consecutiveFailures health + 1,
                                    isHealthy := int (consecutiveFailures health + 1)
                                                   < circuitBreakerThreshold config,
                                    lastCheck := dateNow w (nowCalls st)\<rparr>
                    | Threw error \<Rightarrow>
                        health\<lparr>consecutiveFailures := consecutiveFailures health + 1,
                               isHealthy := int (consecutiveFailures health + 1)
                                              < circuitBreakerThreshold config,
                               lastCheck := dateNow w (nowCalls st)\<rparr>))
       \<and> (\<forall>backend. backend \<in> set (backends config) \<longrightarrow>
            map_of (healthStatus (initState config)) (url backend) =
              Some \<lparr>isHealthy = True, lastCheck = 0, consecutiveFailures = 0,
                    avgResponseTime = 0\<rparr>)"
proof (intro conjI allI impI)
  fix u and health :: BackendHealth
  assume "map_of (healthStatus (runEvents w config evs)) u = Some health"
  with runEvents_consistent[OF assms, of w evs]
  have "healthConsistent config health" by (rule allHealth_lookup)
  then show "isHealthy health
               \<longleftrightarrow> int (consecutiveFailures health) < circuitBreakerThreshold config"
    by (simp add: healthConsistent_def)
next
  fix st :: ProxyState and u and health :: BackendHealth
  assume "map_of (healthStatus st) u = Some health"
  then show "map_of (healthStatus (markBackendUnhealthy config u st)) u =
              Some (health\<lparr>consecutiveFailures := consecutiveFailures health + 1,
                           isHealthy := int (consecutiveFailures health + 1)
                                          < circuitBreakerThreshold config\<rparr>)"
    by (rule markBackendUnhealthy_rederives)
next
  fix st :: ProxyState and u and health :: BackendHealth
  assume "map_of (healthStatus st) u = Some health"
  then show "map_of (healthStatus (markBackendHealthy u st)) u =
                Some (health\<lparr>isHealthy := True, consecutiveFailures := 0\<rparr>)"
    by (rule markBackendHealthy_resets)
next
  fix st :: ProxyState and backend :: BackendConfig and health :: BackendHealth
  assume "map_of (healthStatus st) (url backend) = Some health"
  then show "map_of (healthStatus (checkBackendHealth w config backend st)) (url backend) =
              Some (case fetchResult w (fetchCalls st) (probeArgs backend) of
                      Responded response \<Rightarrow>
                        if ok response
                        then health\<lparr>isHealthy := True, consecutiveFailures := 0,
                                    lastCheck := dateNow w (nowCalls st)\<rparr>
                        else health\<lparr>consecutiveFailures := consecutiveFailures health + 1,
                                    isHealthy := int (consecutiveFailures health + 1)
                                                   < circuitBreakerThreshold config,
                                    lastCheck := dateNow w (nowCalls st)\<rparr>
                    | Threw error \<Rightarrow>
                        health\<lparr>consecutiveFailures := consecutiveFailures health + 1,
                               isHealthy := int (consecutiveFailures health + 1)
                                              < circuitBreakerThreshold config,
                               lastCheck := dateNow w (nowCalls st)\<rparr>)"
    by (rule checkBackendHealth_outcome)
next
  fix backend assume "backend \<in> set (backends config)"
  then show "map_of (healthStatus (initState config)) (url backend) =
              Some \<lparr>isHealthy = True, lastCheck = 0, consecutiveFailures = 0,
                    avgResponseTime = 0\<rparr>"
    using initState_lookup[of backend config] by (simp add: initialHealth_def)
qed

lemma failures_then_probe:
  "map_of (healthStatus (runEvents quietWorld (configWith 3)
       [MarkFailure ''A'', MarkFailure ''A'', ProbeOutcome backendA])) ''A'' =
     Some \<lparr>isHealthy = False, lastCheck = 0, consecutiveFailures = 3, avgResponseTime = 0\<rparr>"
  by code_simp

lemma probe_recovers:
  "map_of (healthStatus (runEvents (answeringWorld 200) (configWith 3)
       [MarkFailure ''A'', MarkFailure ''A'', MarkFailure ''A'', ProbeOutcome backendA])) ''A'' =
     Some \<lparr>isHealthy = True, lastCheck = 0, consecutiveFailures = 0, avgResponseTime = 0\<rparr>"
  by code_simp

theorem health_invariant_witness:
  "1 \<le> circuitBreakerThreshold (configWith 3)
   \<and> map_of (healthStatus (runEvents quietWorld (configWith 3)
         [MarkFailure ''A'', MarkFailure ''A'', ProbeOutcome backendA])) ''A'' =
       Some \<lparr>isHealthy = False, lastCheck = 0, consecutiveFailures = 3, avgResponseTime = 0\<rparr>
   \<and> (isHealthy \<lparr>isHealthy = False, lastCheck = 0, consecutiveFailures = 3, avgResponseTime = 0\<rparr>
        \<longleftrightarrow> int (consecutiveFailures
              \<lparr>isHealthy = False, lastCheck = 0, consecutiveFailures = 3, avgResponseTime = 0\<rparr>)
            < circuitBreakerThreshold (configWith 3))
   \<and> map_of (healthStatus (runEvents (answeringWorld 200) (configWith 3)
         [MarkFailure ''A'', MarkFailure ''A'', MarkFailure ''A'', ProbeOutcome backendA])) ''A'' =
       Some \<lparr>isHealthy = True, lastCheck = 0, consecutiveFailures = 0, avgResponseTime = 0\<rparr>"
proof -
  have t: "1 \<le> circuitBreakerThreshold (configWith 3)" by (simp add: configWith_def)
  from health_invariant[OF t, of quietWorld
      "[MarkFailure ''A'', MarkFailure ''A'', ProbeOutcome backendA]"]
  have inv: "\<forall>u (health :: BackendHealth).
            map_of (healthStatus (runEvents quietWorld (configWith 3)
               [MarkFailure ''A'', MarkFailure ''A'', ProbeOutcome backendA])) u = Some health \<longrightarrow>
            (isHealthy health
               \<longleftrightarrow> int (consecutiveFailures health) < circuitBreakerThreshold (configWith 3))"
    by (rule conjunct1)
  from inv failures_then_probe t probe_recovers show ?thesis by blast
qed

theorem health_invariant_counterexample:
  "loadConfig zeroThresholdEnv = configWith 0
   \<and> validateConfig (configWith 0) = None
   \<and> map_of (healthStatus (initState (configWith 0))) ''A'' = Some initialHealth
   \<and> isHealthy initialHealth
   \<and> \<not> int (consecutiveFailures initialHealth) < circuitBreakerThreshold (configWith 0)"
  by code_simp

section \<open>The metrics records\<close>

lemma metrics_markBackendHealthy: "metrics (markBackendHealthy u st) = metrics st"
  by (simp add: markBackendHealthy_def split: option.splits)

lemma metrics_markBackendUnhealthy: "metrics (markBackendUnhealthy config u st) = metrics st"
  by (simp add: markBackendUnhealthy_def split: option.splits)

lemma metrics_checkBackendHealth: "metrics (checkBackendHealth w config backend st) = metrics st"
  by (simp add: checkBackendHealth_def doFetch_def doNow_def Let_def split: option.splits)

lemma updateMetrics_metrics:
  "metrics (updateMetrics u d s st) =
     (case map_of (metrics st) u of
        None \<Rightarrow> metrics st
      | Some m \<Rightarrow>
          AList.update u
            (m\<lparr>requests := requests m + 1, totalTime := totalTime m + d,
               errors := (if s then errors m else errors m + 1)\<rparr>)
            (metrics st))"
  by (simp add: updateMetrics_def Let_def split: option.splits)

lemma updateMetrics_bounded:
  assumes "allMetrics errorsBounded st"
  shows "allMetrics errorsBounded (updateMetrics u d s st)"
proof (cases "map_of (metrics st) u")
  case None
  with assms show ?thesis by (simp add: allMetrics_def updateMetrics_metrics)
next
  case (Some m)
  from allMetrics_lookup[OF assms Some] have "errors m \<le> requests m"
    by (simp add: errorsBounded_def)
  then have "errorsBounded (m\<lparr>requests := requests m + 1, totalTime := totalTime m + d,
               errors := (if s then errors m else errors m + 1)\<rparr>)"
    by (simp add: errorsBounded_def)
  with Some assms show ?thesis
    by (simp add: allMetrics_def updateMetrics_metrics list_all_update)
qed

lemma applyEvent_bounded:
  "allMetrics errorsBounded st \<Longrightarrow> allMetrics errorsBounded (applyEvent w config st ev)"
  by (cases ev)
    (simp_all add: updateMetrics_bounded,
     simp_all add: allMetrics_def metrics_markBackendHealthy metrics_markBackendUnhealthy
       metrics_checkBackendHealth)

lemma runEvents_bounded: "allMetrics errorsBounded (runEvents w config evs)"
proof -
  have "allMetrics errorsBounded (foldl (applyEvent w config) st evs)"
    if "allMetrics errorsBounded st" for st
    using that by (induction evs arbitrary: st) (simp_all add: applyEvent_bounded)
  moreover have "allMetrics errorsBounded (initState config)"
    using initState_all[of "\<lambda>h. True" errorsBounded]
    by (simp add: initialMetrics_def errorsBounded_def)
  ultimately show ?thesis by (simp add: runEvents_def)
qed

lemma applyEvent_grows:
  assumes "map_of (metrics st) u = Some m" "nonNegativeDuration ev"
  shows "\<exists>m'. map_of (metrics (applyEvent w config st ev)) u = Some m'
           \<and> totalTime m \<le> totalTime m' \<and> requests m \<le> requests m' \<and> errors m \<le> errors m'"
proof (cases ev)
  case (RecordOutcome u' d s)
  with assms(2) have d: "0 \<le> d" by simp
  show ?thesis
  proof (cases "map_of (metrics st) u'")
    case None
    with assms(1) RecordOutcome show ?thesis by (simp add: updateMetrics_metrics)
  next
    case (Some m0)
    with assms(1) RecordOutcome d show ?thesis
      by (cases "u' = u") (simp_all add: updateMetrics_metrics update_conv')
  qed
qed (use assms(1) in \<open>simp_all add: metrics_markBackendHealthy metrics_markBackendUnhealthy
       metrics_checkBackendHealth\<close>)

lemma runEvents_snoc:
  "runEvents w config (evs @ [ev]) = applyEvent w config (runEvents w config evs) ev"
  by (simp add: runEvents_def)

text \<open>
  Claim C7.  Every backend's metrics record starts as requests = errors = totalTime = 0;
  on every run of the registry operations \<open>errors \<le> requests\<close> holds for every record, and
  a further operation whose duration is not negative leaves no record's \<open>totalTime\<close> (nor
  its \<open>requests\<close> or \<open>errors\<close>) smaller than before.
\<close>

theorem metrics_invariant:
  "(\<forall>backend. backend \<in> set (backends config) \<longrightarrow>
       map_of (metrics (runEvents w config [])) (url backend) =
         Some \<lparr>requests = 0, errors = 0, totalTime = 0\<rparr>)
   \<and> (\<forall>u (m :: BackendMetrics).
         map_of (metrics (runEvents w config evs)) u = Some m \<longrightarrow> errors m \<le> requests m)
   \<and> (\<forall>ev u (m :: BackendMetrics).
         nonNegativeDuration ev \<longrightarrow> map_of (metrics (runEvents w config evs)) u = Some m \<longrightarrow>
         (\<exists>m'. map_of (metrics (runEvents w config (evs @ [ev]))) u = Some m'
            \<and> totalTime m \<le> totalTime m' \<and> requests m \<le> requests m' \<and> errors m \<le> errors m'))"
proof (intro conjI allI impI)
  fix backend assume "backend \<in> set (backends config)"
  then show "map_of (metrics (runEvents w config [])) (url backend) =
         Some \<lparr>requests = 0, errors = 0, totalTime = 0\<rparr>"
    using initState_lookup[of backend config] by (simp add: runEvents_def initialMetrics_def)
next
  fix u and m :: BackendMetrics
  assume "map_of (metrics (runEvents w config evs)) u = Some m"
  with runEvents_bounded[of w config evs] have "errorsBounded m" by (rule allMetrics_lookup)
  then show "errors m \<le> requests m" by (simp add: errorsBounded_def)
next
  fix ev u and m :: BackendMetrics
  assume "nonNegativeDuration ev" "map_of (metrics (runEvents w config evs)) u = Some m"
  then show "\<exists>m'. map_of (metrics (runEvents w config (evs @ [ev]))) u = Some m'
            \<and> totalTime m \<le> totalTime m' \<and> requests m \<le> requests m' \<and> errors m \<le> errors m'"
    unfolding runEvents_snoc by (intro applyEvent_grows)
qed

lemma two_outcomes:
  "map_of (metrics (runEvents quietWorld (configWith 5)
       [RecordOutcome ''A'' 120 True, RecordOutcome ''A'' 80 False])) ''A'' =
     Some \<lparr>requests = 2, errors = 1, totalTime = 200\<rparr>"
  by code_simp

theorem metrics_invariant_witness:
  "backendA \<in> set (backends (configWith 5))
   \<and> map_of (metrics (runEvents quietWorld (configWith 5) [])) (url backendA) =
       Some \<lparr>requests = 0, errors = 0, totalTime = 0\<rparr>
   \<and> map_of (metrics (runEvents quietWorld (configWith 5)
         [RecordOutcome ''A'' 120 True, RecordOutcome ''A'' 80 False])) ''A'' =
       Some \<lparr>requests = 2, errors = 1, totalTime = 200\<rparr>
   \<and> errors \<lparr>requests = 2, errors = 1, totalTime = 200\<rparr>
       \<le> requests \<lparr>requests = 2, errors = 1, totalTime = 200\<rparr>"
proof -
  have b: "backendA \<in> set (backends (configWith 5))" by (simp add: configWith_def)
  from metrics_invariant[of "configWith 5" quietWorld
      "[RecordOutcome ''A'' 120 True, RecordOutcome ''A'' 80 False]"] b two_outcomes
  show ?thesis by blast
qed

text \<open>
  Claim C8.  Recording an outcome with duration \<open>d\<close> for a backend replaces its
  \<open>avgResponseTime\<close> \<open>a\<close> by \<open>(a + d) / 2\<close> and changes nothing else of the health record;
  for a configured backend the first recorded duration gives \<open>d / 2\<close>.
\<close>

theorem avgResponseTime_recurrence:
  "(\<forall>(st :: ProxyState) (health :: BackendHealth).
       map_of (healthStatus st) u = Some health \<longrightarrow>
       map_of (healthStatus (updateMetrics u d s st)) u =
         Some (health\<lparr>avgResponseTime := (avgResponseTime health + of_int d) / 2\<rparr>))
   \<and> (\<forall>backend. backend \<in> set (backends config) \<longrightarrow>
         map_of (healthStatus (initState config)) (url backend) =
           Some \<lparr>isHealthy = True, lastCheck = 0, consecutiveFailures = 0, avgResponseTime = 0\<rparr>
         \<and> map_of (healthStatus (updateMetrics (url backend) d s (initState config))) (url backend) =
           Some \<lparr>isHealthy = True, lastCheck = 0, consecutiveFailures = 0,
                 avgResponseTime = of_int d / 2\<rparr>)"
proof (intro conjI allI impI)
  fix st :: ProxyState and health :: BackendHealth
  assume "map_of (healthStatus st) u = Some health"
  then show "map_of (healthStatus (updateMetrics u d s st)) u =
         Some (health\<lparr>avgResponseTime := (avgResponseTime health + of_int d) / 2\<rparr>)"
    by (simp add: updateMetrics_healthStatus update_conv')
next
  fix backend assume "backend \<in> set (backends config)"
  then show "map_of (healthStatus (initState config)) (url backend) =
           Some \<lparr>isHealthy = True, lastCheck = 0, consecutiveFailures = 0, avgResponseTime = 0\<rparr>"
    using initState_lookup[of backend config] by (simp add: initialHealth_def)
next
  fix backend assume "backend \<in> set (backends config)"
  then show "map_of (healthStatus (updateMetrics (url backend) d s (initState config))) (url backend) =
           Some \<lparr>isHealthy = True, lastCheck = 0, consecutiveFailures = 0,
                 avgResponseTime = of_int d / 2\<rparr>"
    using initState_lookup[of backend config]
    by (simp add: updateMetrics_healthStatus update_conv' initialHealth_def)
qed

theorem avgResponseTime_recurrence_witness:
  "backendA \<in> set (backends (configWith 5))
   \<and> map_of (healthStatus (updateMetrics (url backendA) 100 True (initState (configWith 5))))
        (url backendA) =
       Some \<lparr>isHealthy = True, lastCheck = 0, consecutiveFailures = 0, avgResponseTime = 50\<rparr>"
proof -
  have b: "backendA \<in> set (backends (configWith 5))" by (simp add: configWith_def)
  from avgResponseTime_recurrence[of "url backendA" 100 True "configWith 5"] b
  show ?thesis by simp
qed

section \<open>Oversize requests\<close>

lemma parseInt_empty: "parseInt [] = None"
  by (simp add: parseInt_def)

text \<open>
  Claim C9.  When the \<open>Content-Length\<close> header parses to a number above 10 MiB,
  \<open>handleRequest\<close> answers 413 with the JSON error body; it has read the clock twice and done
  nothing else: no cache lookup, no selection, no fetch, and the health and metrics maps
  are as before.
\<close>

theorem oversize_rejected:
  assumes "hget (req_headers request) ''content-length'' = Some contentLength"
    and "parseInt contentLength = Some n"
    and "n > 10 * 1024 * 1024"
  shows "handleRequest w config request st =
           (\<lparr>status = 413, statusText = [],
             headers = [(''content-type'', ''application/json''),
                        (''access-control-allow-origin'', ''*'')],
             body = ErrorJson ''Request too large'' 413
                      (toISOString w (dateNow w (Suc (nowCalls st))))\<rparr>,
            st\<lparr>nowCalls := Suc (Suc (nowCalls st))\<rparr>)
       \<and> effects (snd (handleRequest w config request st)) = effects st
       \<and> fetchCalls (snd (handleRequest w config request st)) = fetchCalls st
       \<and> randomCalls (snd (handleRequest w config request st)) = randomCalls st
       \<and> healthStatus (snd (handleRequest w config request st)) = healthStatus st
       \<and> metrics (snd (handleRequest w config request st)) = metrics st"
proof -
  from assms(2) have "contentLength \<noteq> []" using parseInt_empty by auto
  with assms have big: "isRequestTooLarge request" by (simp add: isRequestTooLarge_def)
  have "handleRequest w config request st =
           (\<lparr>status = 413, statusText = [],
             headers = [(''content-type'', ''application/json''),
                        (''access-control-allow-origin'', ''*'')],
             body = ErrorJson ''Request too large'' 413
                      (toISOString w (dateNow w (Suc (nowCalls st))))\<rparr>,
            st\<lparr>nowCalls := Suc (Suc (nowCalls st))\<rparr>)"
    by (simp add: handleRequest_def doNow_def big createErrorResponse_def)
  then show ?thesis by simp
qed

lemma oversize_parses: "parseInt ''20971520'' = Some 20971520"
  by code_simp

theorem oversize_rejected_witness:
  "hget (req_headers oversizeRequest) ''content-length'' = Some ''20971520''
   \<and> parseInt ''20971520'' = Some 20971520
   \<and> (20971520 :: int) > 10 * 1024 * 1024
   \<and> status (fst (handleRequest quietWorld (configWith 5) oversizeRequest
                    (initState (configWith 5)))) = 413
   \<and> snd (handleRequest quietWorld (configWith 5) oversizeRequest (initState (configWith 5))) =
       (initState (configWith 5))\<lparr>nowCalls := Suc (Suc (nowCalls (initState (configWith 5))))\<rparr>"
proof -
  have h: "hget (req_headers oversizeRequest) ''content-length'' = Some ''20971520''"
    by code_simp
  have g: "(20971520 :: int) > 10 * 1024 * 1024" by simp
  from oversize_rejected[OF h oversize_parses g, of quietWorld "configWith 5"
      "initState (configWith 5)"] h oversize_parses g
  show ?thesis by simp
qed

section \<open>Performance weighting\<close>

lemma alist_update_subset: "set (AList.update k v al) \<subseteq> insert (k, v) (set al)"
  by (induction al) auto

lemma computeScores_values:
  "\<forall>(k, v) \<in> set scores. v = scoreAt ms k \<Longrightarrow>
   \<forall>(k, v) \<in> set (computeScores cs ms scores). v = scoreAt ms k"
proof (induction cs arbitrary: scores)
  case Nil
  then show ?case by simp
next
  case (Cons c cs)
  have upd: "\<forall>(k, v) \<in> set (AList.update (url c) (scoreAt ms (url c)) scores). v = scoreAt ms k"
    using Cons.prems alist_update_subset[of "url c" "scoreAt ms (url c)" scores] by auto
  have "computeScores (c # cs) ms scores =
          computeScores cs ms (AList.update (url c) (scoreAt ms (url c)) scores)"
    by (simp add: scoreAt_def split: option.splits)
  with Cons.IH[OF upd] show ?case by simp
qed

lemma computeScores_keys:
  "fst ` set (computeScores cs ms scores) = fst ` set scores \<union> url ` set cs"
proof (induction cs arbitrary: scores)
  case Nil
  then show ?case by simp
next
  case (Cons c cs)
  have "computeScores (c # cs) ms scores =
          computeScores cs ms (AList.update (url c) (scoreAt ms (url c)) scores)"
    by (simp add: scoreAt_def split: option.splits)
  then show ?case by (auto simp: Cons.IH dom_update)
qed

lemma computeScores_distinct:
  "distinct (map fst scores) \<Longrightarrow> distinct (map fst (computeScores cs ms scores))"
  by (induction cs arbitrary: scores) (simp_all add: distinct_update split: option.splits)

lemma computeScores_lookup:
  assumes "c \<in> set cs"
  shows "map_of (computeScores cs ms []) (url c) = Some (scoreAt ms (url c))"
proof -
  from assms have "url c \<in> fst ` set (computeScores cs ms [])"
    by (simp add: computeScores_keys)
  then obtain v where v: "(url c, v) \<in> set (computeScores cs ms [])" by force
  with computeScores_values[of "[]" ms cs] have "v = scoreAt ms (url c)" by auto
  moreover have "distinct (map fst (computeScores cs ms []))"
    by (rule computeScores_distinct) simp
  ultimately show ?thesis using v by simp
qed

lemma computeScores_snd:
  "snd ` set (computeScores cs ms []) = scoreAt ms ` url ` set cs"
proof -
  have vals: "\<forall>(k, v) \<in> set (computeScores cs ms []). v = scoreAt ms k"
    by (rule computeScores_values) simp
  have "snd ` set (computeScores cs ms []) = scoreAt ms ` fst ` set (computeScores cs ms [])"
    using vals by (force simp: image_iff)
  then show ?thesis by (simp add: computeScores_keys)
qed

lemma mathMax_Max: "vs \<noteq> [] \<Longrightarrow> mathMax vs = Max (set vs)"
proof (cases vs)
  case Nil
  then show "vs \<noteq> [] \<Longrightarrow> ?thesis" by simp
next
  case (Cons v rest)
  have "(\<lambda>x a. max a x) = (max :: rat \<Rightarrow> rat \<Rightarrow> rat)" by (simp add: fun_eq_iff max.commute)
  then have "foldl max v rest = fold max rest v" by (simp add: foldl_conv_fold)
  with Cons Max.set_eq_fold[of v rest] show ?thesis by (simp add: mathMax_def)
qed

text \<open>What \<open>selectByPerformance\<close> assigns: the weight \<open>max 1 \<lfloor>maxScore - score\<rfloor>\<close> for every
  candidate whose score is not 0, and \<open>max 1 \<lfloor>maxScore - 50\<rfloor>\<close> for a candidate whose score
  is 0.\<close>

lemma transientWeights_formula:
  assumes "cs \<noteq> []"
  shows "transientWeights cs ms =
           map (\<lambda>c. c\<lparr>weight :=
                  max 1 (of_int \<lfloor>Max (scoreAt ms ` url ` set cs) + 1
                           - (if scoreAt ms (url c) = 0 then 50 else scoreAt ms (url c))\<rfloor>)\<rparr>) cs"
proof -
  from assms have "url ` set cs \<noteq> {}" by simp
  then have "fst ` set (computeScores cs ms []) \<noteq> {}" by (simp add: computeScores_keys)
  then have ne: "map snd (computeScores cs ms []) \<noteq> []" by auto
  have mx: "mathMax (map snd (computeScores cs ms [])) = Max (scoreAt ms ` url ` set cs)"
    using mathMax_Max[OF ne] by (simp add: computeScores_snd)
  have sc: "scoreOr50 (computeScores cs ms []) (url c) =
              (if scoreAt ms (url c) = 0 then 50 else scoreAt ms (url c))" if "c \<in> set cs" for c
    using computeScores_lookup[OF that, of ms] by (simp add: scoreOr50_def)
  show ?thesis
    unfolding transientWeights_def Let_def mx
    by (rule map_cong) (simp_all add: sc)
qed

text \<open>
  Claim C4 at a candidate whose score is 0.  Backend A has answered one request without
  error in 0 ms, backend B has no metrics: the scores are 0 and 50 and \<open>maxScore\<close> is 51.
  The claimed transient weight of A is \<open>max 1 \<lfloor>51 - 0\<rfloor> = 51\<close>; the code, reading the score
  through \<open>scores.get(url) || 50\<close>, gives A the weight 1.
\<close>

theorem zero_score_weight:
  "computeScores [backendA, backendB] fastMetrics [] = [(''A'', 0), (''B'', 50)]
   \<and> mathMax (map snd (computeScores [backendA, backendB] fastMetrics [])) + 1 = 51
   \<and> map weight (transientWeights [backendA, backendB] fastMetrics) = [1, 1]
   \<and> max 1 (of_int \<lfloor>(51 :: rat) - 0\<rfloor>) = (51 :: rat)"
  by code_simp

section \<open>The Forwarder's retries\<close>

declare retryLoop.simps [simp del]

lemma retryLoop_retry:
  assumes "fetchResult w (fetchCalls st) args = Threw error" "isRetryableError error"
    and "int a + 1 < retryAttempts config"
  shows "retryLoop w config args (int a) lastError st =
           retryLoop w config args (int (Suc a)) (Some error)
             (st\<lparr>fetchCalls := Suc (fetchCalls st),
                 effects := effects st @ [Fetch (f_method args) (f_url args),
                                          Sleep (2 ^ a * 1000)]\<rparr>)"
  using assms
  by (subst retryLoop.simps) (simp add: doFetch_def doSleep_def Let_def add.commute)

lemma retryLoop_skip:
  assumes "\<forall>j<k. isRetryableThrow (fetchResult w (fetchCalls st + j) args)"
    and "int a + int k < retryAttempts config"
  shows "\<exists>lastError'.
           retryLoop w config args (int a) lastError st =
           retryLoop w config args (int (a + k)) lastError'
             (st\<lparr>fetchCalls := fetchCalls st + k,
                 effects := effects st @
                   concat (map (\<lambda>j. [Fetch (f_method args) (f_url args),
                                       Sleep (2 ^ (a + j) * 1000)]) [0..<k])\<rparr>)"
  using assms
proof (induction k arbitrary: a st lastError)
  case 0
  then show ?case by (intro exI[of _ lastError]) simp
next
  case (Suc k)
  from Suc.prems(1) have "isRetryableThrow (fetchResult w (fetchCalls st + 0) args)" by blast
  then obtain error where e: "fetchResult w (fetchCalls st) args = Threw error"
    "isRetryableError error"
    by (cases "fetchResult w (fetchCalls st) args") simp_all
  let ?st1 = "st\<lparr>fetchCalls := Suc (fetchCalls st),
                 effects := effects st @ [Fetch (f_method args) (f_url args),
                                          Sleep (2 ^ a * 1000)]\<rparr>"
  from Suc.prems(2) have lt: "int a + 1 < retryAttempts config" by simp
  have step: "retryLoop w config args (int a) lastError st =
           retryLoop w config args (int (Suc a)) (Some error) ?st1"
    by (rule retryLoop_retry[OF e lt])
  have rest: "\<forall>j<k. isRetryableThrow (fetchResult w (fetchCalls ?st1 + j) args)"
  proof (intro allI impI)
    fix j assume "j < k"
    then have "Suc j < Suc k" by simp
    with Suc.prems(1) have "isRetryableThrow (fetchResult w (fetchCalls st + Suc j) args)"
      by blast
    then show "isRetryableThrow (fetchResult w (fetchCalls ?st1 + j) args)" by simp
  qed
  from Suc.prems(2) have "int (Suc a) + int k < retryAttempts config" by simp
  from Suc.IH[OF rest this, of "Some error"] obtain lastError' where
    ih: "retryLoop w config args (int (Suc a)) (Some error) ?st1 =
           retryLoop w config args (int (Suc a + k)) lastError'
             (?st1\<lparr>fetchCalls := fetchCalls ?st1 + k,
                 effects := effects ?st1 @
                   concat (map (\<lambda>j. [Fetch (f_method args) (f_url args),
                                       Sleep (2 ^ (Suc a + j) * 1000)]) [0..<k])\<rparr>)"
    by blast
  have "?st1\<lparr>fetchCalls := fetchCalls ?st1 + k,
                 effects := effects ?st1 @
                   concat (map (\<lambda>j. [Fetch (f_method args) (f_url args),
                                       Sleep (2 ^ (Suc a + j) * 1000)]) [0..<k])\<rparr>
        = st\<lparr>fetchCalls := fetchCalls st + Suc k,
                 effects := effects st @
                   concat (map (\<lambda>j. [Fetch (f_method args) (f_url args),
                                       Sleep (2 ^ (a + j) * 1000)]) [0..<Suc k])\<rparr>"
    by (simp add: map_upt_Suc del: upt_Suc)
  with step ih show ?case by (intro exI[of _ lastError']) simp
qed

lemma retryLoop_last:
  assumes "int a < retryAttempts config"
  shows "(fetchResult w (fetchCalls st) args = Responded response \<longrightarrow>
            retryLoop w config args (int a) lastError st =
              (Inr response, st\<lparr>fetchCalls := Suc (fetchCalls st),
                 effects := effects st @ [Fetch (f_method args) (f_url args)]\<rparr>))
       \<and> (fetchResult w (fetchCalls st) args = Threw error \<and> \<not> isRetryableError error \<longrightarrow>
            retryLoop w config args (int a) lastError st =
              (Inl error, st\<lparr>fetchCalls := Suc (fetchCalls st),
                 effects := effects st @ [Fetch (f_method args) (f_url args)]\<rparr>))
       \<and> (fetchResult w (fetchCalls st) args = Threw error \<and> isRetryableError error
            \<and> int a + 1 = retryAttempts config \<longrightarrow>
            retryLoop w config args (int a) lastError st =
              (Inl error, st\<lparr>fetchCalls := Suc (fetchCalls st),
                 effects := effects st @ [Fetch (f_method args) (f_url args)]\<rparr>))"
proof (intro conjI impI)
  assume "fetchResult w (fetchCalls st) args = Responded response"
  with assms show "retryLoop w config args (int a) lastError st =
              (Inr response, st\<lparr>fetchCalls := Suc (fetchCalls st),
                 effects := effects st @ [Fetch (f_method args) (f_url args)]\<rparr>)"
    by (subst retryLoop.simps) (simp add: doFetch_def)
next
  assume "fetchResult w (fetchCalls st) args = Threw error \<and> \<not> isRetryableError error"
  with assms show "retryLoop w config args (int a) lastError st =
              (Inl error, st\<lparr>fetchCalls := Suc (fetchCalls st),
                 effects := effects st @ [Fetch (f_method args) (f_url args)]\<rparr>)"
    by (subst retryLoop.simps) (simp add: doFetch_def)
next
  assume a: "fetchResult w (fetchCalls st) args = Threw error \<and> isRetryableError error
            \<and> int a + 1 = retryAttempts config"
  then have no: "\<not> int a + 1 < retryAttempts config" "\<not> int a < retryAttempts config - 1"
    by simp_all
  have stop: "retryLoop w config args (retryAttempts config) (Some error) st' = (Inl error, st')"
    for st' by (subst retryLoop.simps) simp
  from assms a no show "retryLoop w config args (int a) lastError st =
              (Inl error, st\<lparr>fetchCalls := Suc (fetchCalls st),
                 effects := effects st @ [Fetch (f_method args) (f_url args)]\<rparr>)"
    by (subst retryLoop.simps) (simp add: doFetch_def Let_def stop)
qed

lemma retryLoop_attempts:
  "fetchCalls (snd (retryLoop w config args attempt lastError st))
     \<le> fetchCalls st + nat (retryAttempts config - attempt)"
proof (induction w config args attempt lastError st rule: retryLoop.induct)
  case (1 w config args attempt lastError st)
  show ?case
  proof (cases "attempt < retryAttempts config")
    case False
    then show ?thesis by (subst retryLoop.simps) (simp split: option.splits)
  next
    case True
    obtain outcome st1 where f: "doFetch w args st = (outcome, st1)" by (cases "doFetch w args st")
    then have s1: "fetchCalls st1 = Suc (fetchCalls st)" by (auto simp: doFetch_def)
    from True have pos: "nat (retryAttempts config - attempt)
                          = Suc (nat (retryAttempts config - (attempt + 1)))" by simp
    show ?thesis
    proof (cases outcome)
      case (Responded response)
      with True f s1 pos show ?thesis by (subst retryLoop.simps) simp
    next
      case (Threw error)
      show ?thesis
      proof (cases "isRetryableError error")
        case False
        with True f s1 Threw pos show ?thesis by (subst retryLoop.simps) simp
      next
        case retry: True
        define st2 where "st2 = (if attempt < retryAttempts config - 1
                           then doSleep (2 ^ nat attempt * 1000) st1 else st1)"
        have s2: "fetchCalls st2 = fetchCalls st1" by (simp add: st2_def doSleep_def)
        have "fetchCalls (snd (retryLoop w config args (attempt + 1) (Some error) st2))
                \<le> fetchCalls st2 + nat (retryAttempts config - (attempt + 1))"
          using "1.IH"[OF True f[symmetric] Threw _ st2_def] retry by simp
        with s1 s2 pos have "fetchCalls (snd (retryLoop w config args (attempt + 1) (Some error) st2))
                \<le> fetchCalls st + nat (retryAttempts config - attempt)" by simp
        with True f Threw retry show ?thesis
          by (subst retryLoop.simps) (simp add: Let_def st2_def)
      qed
    qed
  qed
qed

lemma proxyRequest_attempts:
  "retryAttempts config = int n \<Longrightarrow>
   fetchCalls (snd (proxyRequest w config request backend st)) \<le> fetchCalls st + n"
  using retryLoop_attempts[of w config "proxyArgs request backend" 0 None st]
  by (simp add: proxyRequest_def)

text \<open>
  Claim C2, as amended.  With \<open>retryAttempts = n \<ge> 1\<close> the Forwarder makes at most \<open>n\<close>
  attempts in all, the first one and at most \<open>n - 1\<close> retries.  If the first \<open>k < n\<close>
  attempts end in errors the Forwarder retries, it has slept \<open>2 ^ j\<close> seconds after
  attempt \<open>j\<close> for each of them (1 s, 2 s, 4 s, ...), and attempt \<open>k\<close> decides: a response
  of any status is returned at once, an error that is not retryable is thrown at once,
  and a retryable error on the last of the \<open>n\<close> attempts is thrown without a further sleep.
  Whatever the outcomes, one forward calls \<open>fetch\<close> at most \<open>n\<close> times.
\<close>

theorem forwarder_retries:
  assumes "retryAttempts config = int n"
    and "k < n"
    and "\<forall>j<k. isRetryableThrow
                  (fetchResult w (fetchCalls st + j) (proxyArgs request backend))"
  shows
    "(let args = proxyArgs request backend;
          decisive = fetchResult w (fetchCalls st + k) args;
          st' = st\<lparr>fetchCalls := fetchCalls st + k + 1,
                    effects := effects st
                      @ concat (map (\<lambda>j. [Fetch (f_method args) (f_url args),
                                           Sleep (2 ^ j * 1000)]) [0..<k])
                      @ [Fetch (f_method args) (f_url args)]\<rparr>
      in (\<forall>response. decisive = Responded response \<longrightarrow>
            proxyRequest w config request backend st = (Inr response, st'))
       \<and> (\<forall>error. decisive = Threw error \<and> \<not> isRetryableError error \<longrightarrow>
            proxyRequest w config request backend st = (Inl error, st'))
       \<and> (\<forall>error. decisive = Threw error \<and> isRetryableError error \<and> k + 1 = n \<longrightarrow>
            proxyRequest w config request backend st = (Inl error, st')))
     \<and> fetchCalls (snd (proxyRequest w config request backend st)) \<le> fetchCalls st + n"
proof -
  let ?args = "proxyArgs request backend"
  let ?stk = "st\<lparr>fetchCalls := fetchCalls st + k,
                 effects := effects st @
                   concat (map (\<lambda>j. [Fetch (f_method ?args) (f_url ?args),
                                       Sleep (2 ^ (0 + j) * 1000)]) [0..<k])\<rparr>"
  from assms(1,2) have "int 0 + int k < retryAttempts config" by simp
  from retryLoop_skip[OF assms(3) this, of None] obtain lastError' where
    skip: "retryLoop w config ?args 0 None st = retryLoop w config ?args (int k) lastError' ?stk"
    by auto
  from assms(1,2) have "int k < retryAttempts config" by simp
  note last = retryLoop_last[OF this, where w = w and st = ?stk and args = ?args
      and lastError = lastError']
  have n: "int k + 1 = retryAttempts config \<longleftrightarrow> k + 1 = n" using assms(1) by auto
  have cases: "(let args = proxyArgs request backend;
          decisive = fetchResult w (fetchCalls st + k) args;
          st' = st\<lparr>fetchCalls := fetchCalls st + k + 1,
                    effects := effects st
                      @ concat (map (\<lambda>j. [Fetch (f_method args) (f_url args),
                                           Sleep (2 ^ j * 1000)]) [0..<k])
                      @ [Fetch (f_method args) (f_url args)]\<rparr>
      in (\<forall>response. decisive = Responded response \<longrightarrow>
            proxyRequest w config request backend st = (Inr response, st'))
       \<and> (\<forall>error. decisive = Threw error \<and> \<not> isRetryableError error \<longrightarrow>
            proxyRequest w config request backend st = (Inl error, st'))
       \<and> (\<forall>error. decisive = Threw error \<and> isRetryableError error \<and> k + 1 = n \<longrightarrow>
            proxyRequest w config request backend st = (Inl error, st')))"
    unfolding Let_def proxyRequest_def skip
    using last by (simp add: n)
  from cases proxyRequest_attempts[OF assms(1), of w request backend st]
  show ?thesis by (rule conjI)
qed

lemma failingFirst_throws:
  "j < m \<Longrightarrow> isRetryableThrow (fetchResult (failingFirst m) j args)"
  by (simp add: failingFirst_def isRetryableError_def)

lemma attempts_start:
  "fetchCalls (initState (attemptsConfig 3)) = 0 \<and> effects (initState (attemptsConfig 3)) = []
   \<and> f_method (proxyArgs getRequest originBackend) = ''GET''
   \<and> f_url (proxyArgs getRequest originBackend) = ''https://a.example/x''"
  by code_simp

lemma third_answers:
  "fetchResult (failingFirst 2) (fetchCalls (initState (attemptsConfig 3)) + 2)
     (proxyArgs getRequest originBackend) = Responded (answer 503)"
  by code_simp

theorem forwarder_retries_witness:
  "retryAttempts (attemptsConfig 3) = int 3
   \<and> isRetryableThrow (fetchResult (failingFirst 2) 0 (proxyArgs getRequest originBackend))
   \<and> isRetryableThrow (fetchResult (failingFirst 2) 1 (proxyArgs getRequest originBackend))
   \<and> proxyRequest (failingFirst 2) (attemptsConfig 3) getRequest originBackend
         (initState (attemptsConfig 3)) =
       (Inr (answer 503),
        (initState (attemptsConfig 3))\<lparr>fetchCalls := 3,
           effects := [Fetch ''GET'' ''https://a.example/x'', Sleep 1000,
                       Fetch ''GET'' ''https://a.example/x'', Sleep 2000,
                       Fetch ''GET'' ''https://a.example/x'']\<rparr>)"
proof -
  have n: "retryAttempts (attemptsConfig 3) = int 3" by (simp add: attemptsConfig_def)
  have k: "(2 :: nat) < 3" by simp
  have f: "\<forall>j<2. isRetryableThrow
       (fetchResult (failingFirst 2) (fetchCalls (initState (attemptsConfig 3)) + j)
          (proxyArgs getRequest originBackend))"
    using attempts_start by (simp add: failingFirst_throws)
  have two: "[0..<2] = [0, Suc 0]" by (simp add: upt_rec)
  from forwarder_retries[OF n k f] third_answers attempts_start n
    failingFirst_throws[of 0 2 "proxyArgs getRequest originBackend"]
    failingFirst_throws[of 1 2 "proxyArgs getRequest originBackend"]
  show ?thesis by (simp add: Let_def two)
qed

lemma single_attempt:
  "proxyRequest quietWorld (attemptsConfig 1) getRequest originBackend
     (initState (attemptsConfig 1)) =
     (Inl \<lparr>err_name = ''TypeError'', err_message = ''fetch failed''\<rparr>,
      (initState (attemptsConfig 1))\<lparr>fetchCalls := 1,
         effects := [Fetch ''GET'' ''https://a.example/x'']\<rparr>)"
  by code_simp

theorem forwarder_retries_counterexample:
  "retryAttempts (attemptsConfig 1) = 1
   \<and> isRetryableError \<lparr>err_name = ''TypeError'', err_message = ''fetch failed''\<rparr>
   \<and> fetchResult quietWorld 0 (proxyArgs getRequest originBackend) =
       Threw \<lparr>err_name = ''TypeError'', err_message = ''fetch failed''\<rparr>
   \<and> proxyRequest quietWorld (attemptsConfig 1) getRequest originBackend
         (initState (attemptsConfig 1)) =
       (Inl \<lparr>err_name = ''TypeError'', err_message = ''fetch failed''\<rparr>,
        (initState (attemptsConfig 1))\<lparr>fetchCalls := 1,
           effects := [Fetch ''GET'' ''https://a.example/x'']\<rparr>)
   \<and> retryAttempts (attemptsConfig 2) = 2
   \<and> proxyRequest quietWorld (attemptsConfig 2) getRequest originBackend
         (initState (attemptsConfig 2)) =
       (Inl \<lparr>err_name = ''TypeError'', err_message = ''fetch failed''\<rparr>,
        (initState (attemptsConfig 2))\<lparr>fetchCalls := 2,
           effects := [Fetch ''GET'' ''https://a.example/x'', Sleep 1000,
                       Fetch ''GET'' ''https://a.example/x'']\<rparr>)"
  by code_simp

section \<open>The failover loop\<close>

declare fallbackLoop.simps [simp del]

lemma backend_header_names:
  "toLowerCase ''X-Backend-URL'' = ''x-backend-url''
   \<and> toLowerCase ''X-Backend-Region'' = ''x-backend-region''"
  by code_simp

lemma withBackendHeaders_lookup:
  "hget (headers (withBackendHeaders response backend)) ''X-Backend-URL'' = Some (url backend)
   \<and> hget (headers (withBackendHeaders response backend)) ''X-Backend-Region''
       = Some (region backend)
   \<and> status (withBackendHeaders response backend) = status response
   \<and> body (withBackendHeaders response backend) = body response"
  by (simp add: withBackendHeaders_def hget_def hset_def backend_header_names update_conv')

text \<open>
  Claim C1, as amended.  In every iteration of the failover loop in which a backend is
  selected and the Forwarder returns a response with status below 500, the loop returns
  that response with \<open>X-Backend-URL\<close> and \<open>X-Backend-Region\<close> set to the chosen backend.
  When the status is 2xx the backend is first marked healthy (counter 0, \<open>isHealthy\<close>
  true); for any other status below 500 the state, and so every health record, is left
  as the Forwarder left it.
\<close>

theorem fallback_returns_below_500:
  assumes "i < min (length candidates) 3"
    and "doSelect w candidates (parseRequest request) st = (Some backend, st1)"
    and "proxyRequest w config request backend st1 = (Inr response, st2)"
    and "status response < 500"
  shows "fallbackLoop w config request candidates i lastError st =
           (Inr (withBackendHeaders response backend),
            if ok response then markBackendHealthy (url backend) st2 else st2)
       \<and> hget (headers (withBackendHeaders response backend)) ''X-Backend-URL''
           = Some (url backend)
       \<and> hget (headers (withBackendHeaders response backend)) ''X-Backend-Region''
           = Some (region backend)
       \<and> status (withBackendHeaders response backend) = status response
       \<and> body (withBackendHeaders response backend) = body response
       \<and> (\<forall>health :: BackendHealth. map_of (healthStatus st2) (url backend) = Some health \<longrightarrow>
            map_of (healthStatus (markBackendHealthy (url backend) st2)) (url backend) =
              Some (health\<lparr>isHealthy := True, consecutiveFailures := 0\<rparr>))"
proof -
  have "fallbackLoop w config request candidates i lastError st =
           (Inr (withBackendHeaders response backend),
            if ok response then markBackendHealthy (url backend) st2 else st2)"
    using assms by (subst fallbackLoop.simps) simp
  then show ?thesis
    using withBackendHeaders_lookup[of response backend] markBackendHealthy_resets
    by blast
qed

lemma ok_select:
  "doSelect (answeringWorld 200) [backendA] (parseRequest getRequest) twoFailures =
     (Some backendA, twoFailures\<lparr>randomCalls := 1, effects := [SelectBackend]\<rparr>)"
  by code_simp

lemma ok_forward:
  "proxyRequest (answeringWorld 200) (configWith 5) getRequest backendA
     (twoFailures\<lparr>randomCalls := 1, effects := [SelectBackend]\<rparr>) =
     (Inr (answer 200),
      twoFailures\<lparr>randomCalls := 1, fetchCalls := 1,
                  effects := [SelectBackend, Fetch ''GET'' ''A/x'']\<rparr>)"
  by code_simp

lemma ok_health:
  "map_of (healthStatus (twoFailures\<lparr>randomCalls := 1, fetchCalls := 1,
                  effects := [SelectBackend, Fetch ''GET'' ''A/x'']\<rparr>)) (url backendA) =
     Some \<lparr>isHealthy = True, lastCheck = 0, consecutiveFailures = 2, avgResponseTime = 0\<rparr>"
  by code_simp

theorem fallback_returns_below_500_witness:
  "(0 :: nat) < min (length [backendA]) 3
   \<and> status (answer 200) < 500
   \<and> fst (fallbackLoop (answeringWorld 200) (configWith 5) getRequest [backendA] 0 None
            twoFailures) = Inr (withBackendHeaders (answer 200) backendA)
   \<and> map_of (healthStatus (markBackendHealthy (url backendA)
         (twoFailures\<lparr>randomCalls := 1, fetchCalls := 1,
                  effects := [SelectBackend, Fetch ''GET'' ''A/x'']\<rparr>))) (url backendA) =
       Some \<lparr>isHealthy = True, lastCheck = 0, consecutiveFailures = 0, avgResponseTime = 0\<rparr>"
proof -
  have i: "(0 :: nat) < min (length [backendA]) 3" by simp
  have s: "status (answer 200) < 500" by (simp add: answer_def)
  from fallback_returns_below_500[OF i ok_select ok_forward s, of None] ok_health i s
  show ?thesis by simp
qed

theorem fallback_404_counterexample:
  "fst (proxyRequestWithFallback (answeringWorld 404) (configWith 5) getRequest [backendA]
          twoFailures) = Inr (withBackendHeaders (answer 404) backendA)
   \<and> status (answer 404) = 404
   \<and> map_of (healthStatus twoFailures) ''A'' =
       Some \<lparr>isHealthy = True, lastCheck = 0, consecutiveFailures = 2, avgResponseTime = 0\<rparr>
   \<and> map_of (healthStatus (snd (proxyRequestWithFallback (answeringWorld 404) (configWith 5)
         getRequest [backendA] twoFailures))) ''A'' =
       Some \<lparr>isHealthy = True, lastCheck = 0, consecutiveFailures = 2, avgResponseTime = 0\<rparr>"
  by code_simp

section \<open>The cache-store predicate\<close>

lemma storedResponses_append:
  "storedResponses (es @ fs) = storedResponses es @ storedResponses fs"
  by (induction es rule: storedResponses.induct) simp_all

lemma stored_doNow: "storedResponses (effects (snd (doNow w st))) = storedResponses (effects st)"
  by (simp add: doNow_def)

lemma stored_doFetch:
  "storedResponses (effects (snd (doFetch w args st))) = storedResponses (effects st)"
  by (simp add: doFetch_def storedResponses_append)

lemma stored_doSleep: "storedResponses (effects (doSleep ms st)) = storedResponses (effects st)"
  by (simp add: doSleep_def storedResponses_append)

lemma stored_doSelect:
  "storedResponses (effects (snd (doSelect w cs ri st))) = storedResponses (effects st)"
  by (simp add: doSelect_def storedResponses_append)

lemma effects_markBackendHealthy: "effects (markBackendHealthy u st) = effects st"
  by (simp add: markBackendHealthy_def split: option.splits)

lemma effects_markBackendUnhealthy: "effects (markBackendUnhealthy config u st) = effects st"
  by (simp add: markBackendUnhealthy_def split: option.splits)

lemma effects_updateMetrics: "effects (updateMetrics u d s st) = effects st"
  by (simp add: updateMetrics_def Let_def split: option.splits)

lemma stored_createErrorResponse:
  "storedResponses (effects (snd (createErrorResponse w msg code st)))
     = storedResponses (effects st)"
  by (simp add: createErrorResponse_def doNow_def)

lemma stored_checkBackendHealth:
  "storedResponses (effects (checkBackendHealth w config backend st))
     = storedResponses (effects st)"
  by (simp add: checkBackendHealth_def doFetch_def doNow_def Let_def storedResponses_append
      split: option.splits)

lemma stored_refreshProbes:
  "storedResponses (effects (refreshProbes w config now bs st)) = storedResponses (effects st)"
  by (induction bs arbitrary: st) (simp_all add: stored_checkBackendHealth split: option.splits)

lemma stored_getHealthyBackends:
  "storedResponses (effects (snd (getHealthyBackends w config st)))
     = storedResponses (effects st)"
  by (simp add: getHealthyBackends_def doNow_def Let_def stored_refreshProbes)

lemma stored_retryLoop:
  "storedResponses (effects (snd (retryLoop w config args attempt lastError st)))
     = storedResponses (effects st)"
proof (induction w config args attempt lastError st rule: retryLoop.induct)
  case (1 w config args attempt lastError st)
  show ?case
  proof (cases "attempt < retryAttempts config")
    case False
    then show ?thesis by (subst retryLoop.simps) (simp split: option.splits)
  next
    case True
    obtain outcome st1 where f: "doFetch w args st = (outcome, st1)" by (cases "doFetch w args st")
    then have s1: "storedResponses (effects st1) = storedResponses (effects st)"
      using stored_doFetch[of w args st] by simp
    show ?thesis
    proof (cases outcome)
      case (Responded response)
      with True f s1 show ?thesis by (subst retryLoop.simps) simp
    next
      case (Threw error)
      show ?thesis
      proof (cases "isRetryableError error")
        case False
        with True f s1 Threw show ?thesis by (subst retryLoop.simps) simp
      next
        case retry: True
        define st2 where "st2 = (if attempt < retryAttempts config - 1
                           then doSleep (2 ^ nat attempt * 1000) st1 else st1)"
        have s2: "storedResponses (effects st2) = storedResponses (effects st1)"
          by (simp add: st2_def stored_doSleep)
        have "storedResponses (effects (snd (retryLoop w config args (attempt + 1) (Some error) st2)))
                = storedResponses (effects st2)"
          using "1.IH"[OF True f[symmetric] Threw _ st2_def] retry by simp
        with s1 s2 True f Threw retry show ?thesis
          by (subst retryLoop.simps) (simp add: Let_def st2_def)
      qed
    qed
  qed
qed

lemma stored_proxyRequest:
  "storedResponses (effects (snd (proxyRequest w config request backend st)))
     = storedResponses (effects st)"
  by (simp add: proxyRequest_def stored_retryLoop)

lemma stored_fallbackLoop:
  "storedResponses (effects (snd (fallbackLoop w config request cs i lastError st)))
     = storedResponses (effects st)"
proof (induction w config request cs i lastError st rule: fallbackLoop.induct)
  case (1 w config request cs i lastError st)
  show ?case
  proof (cases "i < min (length cs) 3")
    case False
    have "fallbackLoop w config request cs i lastError st =
            (case lastError of
               Some error \<Rightarrow> (Inl error, st)
             | None \<Rightarrow> (Inl (mkError ''All backends failed''), st))"
      by (subst fallbackLoop.simps) (simp only: False if_False)
    then show ?thesis by (simp split: option.splits)
  next
    case True
    obtain sel st1 where d: "doSelect w cs (parseRequest request) st = (sel, st1)"
      by (cases "doSelect w cs (parseRequest request) st")
    then have s1: "storedResponses (effects st1) = storedResponses (effects st)"
      using stored_doSelect[of w cs "parseRequest request" st] by simp
    show ?thesis
    proof (cases sel)
      case None
      with True d s1 show ?thesis by (subst fallbackLoop.simps) simp
    next
      case (Some backend)
      obtain res st2 where p: "proxyRequest w config request backend st1 = (res, st2)"
        by (cases "proxyRequest w config request backend st1")
      then have s2: "storedResponses (effects st2) = storedResponses (effects st)"
        using stored_proxyRequest[of w config request backend st1] s1 by simp
      show ?thesis
      proof (cases res)
        case (Inr response)
        show ?thesis
        proof (cases "ok response")
          case okT: True
          with True d Some p Inr s2 show ?thesis
            by (subst fallbackLoop.simps) (simp add: effects_markBackendHealthy)
        next
          case notOk: False
          show ?thesis
          proof (cases "status response \<ge> 500")
            case False
            with True d Some p Inr s2 notOk show ?thesis by (subst fallbackLoop.simps) simp
          next
            case server: True
            have "storedResponses (effects (snd (fallbackLoop w config request cs (Suc i)
                     (Some (mkError (''Backend returned '' @ showInt (status response))))
                     (markBackendUnhealthy config (url backend) st2))))
                  = storedResponses (effects (markBackendUnhealthy config (url backend) st2))"
              using "1.IH"(2)[OF True d[symmetric] Some p[symmetric] Inr notOk server] .
            with True d Some p Inr s2 notOk server show ?thesis
              by (subst fallbackLoop.simps) (simp add: effects_markBackendUnhealthy)
          qed
        qed
      next
        case (Inl error)
        define st3 where "st3 = markBackendUnhealthy config (url backend) st2"
        have s3: "storedResponses (effects st3) = storedResponses (effects st)"
          by (simp add: st3_def effects_markBackendUnhealthy s2)
        show ?thesis
        proof (cases "isNetworkError error \<and> i < min (length cs) 3 - 1")
          case False
          with True d Some p Inl s3 show ?thesis
            by (subst fallbackLoop.simps) (auto simp: Let_def st3_def)
        next
          case again: True
          have "storedResponses (effects (snd (fallbackLoop w config request cs (Suc i)
                     (Some error) st3))) = storedResponses (effects st3)"
            using "1.IH"(1)[OF True d[symmetric] Some p[symmetric] Inl st3_def again] .
          with True d Some p Inl s3 again show ?thesis
            by (subst fallbackLoop.simps) (simp add: Let_def st3_def)
        qed
      qed
    qed
  qed
qed

lemma stored_proxyRequestWithFallback:
  "storedResponses (effects (snd (proxyRequestWithFallback w config request cs st)))
     = storedResponses (effects st)"
  by (simp add: proxyRequestWithFallback_def stored_fallbackLoop)
lemma stored_getCachedResponse:
  "storedResponses (effects (snd (getCachedResponse w request st)))
     = storedResponses (effects st)"
  by (simp add: getCachedResponse_def storedResponses_append)

lemma stored_cacheResponse:
  "storedResponses (effects (cacheResponse w config request response st)) =
     storedResponses (effects st)
       @ [response\<lparr>headers :=
            hset (hset (headers response) ''Cache-Control''
                    (''max-age='' @ showInt (cacheMaxAge config)))
              ''X-Cached-At'' (toISOString w (dateNow w (nowCalls st)))\<rparr>]"
  by (simp add: cacheResponse_def doNow_def Let_def storedResponses_append)

text \<open>The part of \<open>handleRequest\<close> after a response has come back from the failover loop.\<close>

lemma handleRequest_forwarded:
  assumes "\<not> isRequestTooLarge request"
    and "(if enableCaching config \<and> req_method request = ''GET''
          then getCachedResponse w request (snd (doNow w st))
          else (None, snd (doNow w st))) = (None, st1)"
    and "getHealthyBackends w config st1 = (healthy, st2)"
    and "healthy \<noteq> []"
    and "proxyRequestWithFallback w config request healthy st2 = (Inr response, st3)"
  shows "handleRequest w config request st =
           (response,
            (let st5 = updateMetrics (hgetOr (headers response) ''X-Backend-URL'' [])
                         (dateNow w (nowCalls st3) - dateNow w (nowCalls st)) (ok response)
                         (st3\<lparr>nowCalls := Suc (nowCalls st3)\<rparr>)
             in if shouldCacheResponse config request response
                then cacheResponse w config request response st5 else st5))"
proof -
  have n: "doNow w st = (dateNow w (nowCalls st), snd (doNow w st))" by (simp add: doNow_def)
  have n3: "doNow w st3 = (dateNow w (nowCalls st3), st3\<lparr>nowCalls := Suc (nowCalls st3)\<rparr>)"
    by (simp add: doNow_def)
  from assms(4) have l: "length healthy \<noteq> 0" by simp
  show ?thesis
    unfolding handleRequest_def
    by (subst n) (simp only: prod.case assms(1) if_False assms(2) option.case assms(3) l
        assms(5) sum.case n3 Let_def)
qed

lemma nowCalls_updateMetrics: "nowCalls (updateMetrics u d s st) = nowCalls st"
  by (simp add: updateMetrics_def Let_def split: option.splits)

lemma handleRequest_stores:
  "storedResponses (effects (snd (handleRequest w config request st)))
     = storedResponses (effects st)
   \<or> (shouldCacheResponse config request (fst (handleRequest w config request st))
      \<and> (\<exists>t. storedResponses (effects (snd (handleRequest w config request st))) =
                storedResponses (effects st)
                  @ [(fst (handleRequest w config request st))\<lparr>headers :=
                       hset (hset (headers (fst (handleRequest w config request st)))
                               ''Cache-Control'' (''max-age='' @ showInt (cacheMaxAge config)))
                         ''X-Cached-At'' (toISOString w t)\<rparr>]))"
proof -
  define st0 where "st0 = snd (doNow w st)"
  have n: "doNow w st = (dateNow w (nowCalls st), st0)" by (simp add: doNow_def st0_def)
  have s0: "storedResponses (effects st0) = storedResponses (effects st)"
    by (simp add: st0_def stored_doNow)
  show ?thesis
  proof (cases "isRequestTooLarge request")
    case True
    then have "handleRequest w config request st =
                 createErrorResponse w ''Request too large'' 413 st0"
      unfolding handleRequest_def by (subst n) (simp only: prod.case if_True)
    then show ?thesis using stored_createErrorResponse[of w _ _ st0] s0 by simp
  next
    case small: False
    obtain cached st1 where c:
      "(if enableCaching config \<and> req_method request = ''GET''
        then getCachedResponse w request st0 else (None, st0)) = (cached, st1)"
      by (cases "if enableCaching config \<and> req_method request = ''GET''
                 then getCachedResponse w request st0 else (None, st0)")
    have s1: "storedResponses (effects st1) = storedResponses (effects st)"
    proof (cases "enableCaching config \<and> req_method request = ''GET''")
      case True
      with c have "st1 = snd (getCachedResponse w request st0)" by simp
      then show ?thesis by (simp add: stored_getCachedResponse s0)
    next
      case False
      with c have "st1 = st0" by simp
      then show ?thesis by (simp add: s0)
    qed
    show ?thesis
    proof (cases cached)
      case (Some hit)
      have "handleRequest w config request st = (hit, st1)"
        unfolding handleRequest_def
        by (subst n) (simp only: prod.case small if_False c Some option.case)
      then show ?thesis by (simp add: s1)
    next
      case None
      obtain healthy st2 where g: "getHealthyBackends w config st1 = (healthy, st2)"
        by (cases "getHealthyBackends w config st1")
      then have s2: "storedResponses (effects st2) = storedResponses (effects st)"
        using stored_getHealthyBackends[of w config st1] s1 by simp
      show ?thesis
      proof (cases "length healthy = 0")
        case True
        have "handleRequest w config request st =
                createErrorResponse w ''All backends unavailable'' 503 st2"
          unfolding handleRequest_def
          by (subst n) (simp only: prod.case small if_False c None option.case g True if_True simp_thms)
        then show ?thesis using stored_createErrorResponse[of w _ _ st2] s2 by simp
      next
        case some: False
        obtain res st3 where p:
          "proxyRequestWithFallback w config request healthy st2 = (res, st3)"
          by (cases "proxyRequestWithFallback w config request healthy st2")
        then have s3: "storedResponses (effects st3) = storedResponses (effects st)"
          using stored_proxyRequestWithFallback[of w config request healthy st2] s2 by simp
        show ?thesis
        proof (cases res)
          case (Inl error)
          define st4 where "st4 = st3\<lparr>nowCalls := Suc (nowCalls st3)\<rparr>"
          have n3: "doNow w st3 = (dateNow w (nowCalls st3), st4)"
            by (simp add: doNow_def st4_def)
          have "handleRequest w config request st =
                  createErrorResponse w ''Service temporarily unavailable''
                    (getErrorStatus error) st4"
            unfolding handleRequest_def
            by (subst n) (simp only: prod.case small if_False c None option.case g some p Inl
                sum.case n3)
          then show ?thesis
            using stored_createErrorResponse[of w _ _ st4] s3 by (simp add: st4_def)
        next
          case (Inr response)
          from some have ne: "healthy \<noteq> []" by simp
          from c None have c': "(if enableCaching config \<and> req_method request = ''GET''
              then getCachedResponse w request (snd (doNow w st))
              else (None, snd (doNow w st))) = (None, st1)"
            unfolding st0_def by simp
          from p Inr have p': "proxyRequestWithFallback w config request healthy st2
                                 = (Inr response, st3)" by simp
          note h = handleRequest_forwarded[OF small c' g ne p']
          define st5 where
            "st5 = updateMetrics (hgetOr (headers response) ''X-Backend-URL'' [])
                         (dateNow w (nowCalls st3) - dateNow w (nowCalls st)) (ok response)
                         (st3\<lparr>nowCalls := Suc (nowCalls st3)\<rparr>)"
          have s5: "storedResponses (effects st5) = storedResponses (effects st)"
            by (simp add: st5_def effects_updateMetrics s3)
          show ?thesis
          proof (cases "shouldCacheResponse config request response")
            case False
            with h have "snd (handleRequest w config request st) = st5"
              by (simp add: Let_def st5_def)
            then show ?thesis by (simp add: s5)
          next
            case True
            with h have r: "handleRequest w config request st =
                              (response, cacheResponse w config request response st5)"
              by (simp add: Let_def st5_def)
            show ?thesis
              unfolding r using True
              by (intro disjI2) (auto simp: stored_cacheResponse s5)
          qed
        qed
      qed
    qed
  qed
qed

lemma handleRequest_forwarded_stores:
  assumes "\<not> isRequestTooLarge request"
    and "(if enableCaching config \<and> req_method request = ''GET''
          then getCachedResponse w request (snd (doNow w st))
          else (None, snd (doNow w st))) = (None, st1)"
    and "getHealthyBackends w config st1 = (healthy, st2)"
    and "healthy \<noteq> []"
    and "proxyRequestWithFallback w config request healthy st2 = (Inr upstream, st3)"
    and "shouldCacheResponse config request upstream"
  shows "fst (handleRequest w config request st) = upstream
       \<and> storedResponses (effects (snd (handleRequest w config request st))) =
           storedResponses (effects st)
             @ [upstream\<lparr>headers :=
                  hset (hset (headers upstream) ''Cache-Control''
                          (''max-age='' @ showInt (cacheMaxAge config)))
                    ''X-Cached-At'' (toISOString w (dateNow w (Suc (nowCalls st3))))\<rparr>]"
proof -
  have "st1 = snd (if enableCaching config \<and> req_method request = ''GET''
                   then getCachedResponse w request (snd (doNow w st))
                   else (None, snd (doNow w st)))"
    by (simp only: assms(2) snd_conv)
  then have s1: "storedResponses (effects st1) = storedResponses (effects st)"
    by (simp add: stored_getCachedResponse stored_doNow)
  from assms(3) have s2: "storedResponses (effects st2) = storedResponses (effects st)"
    using stored_getHealthyBackends[of w config st1] s1 by simp
  from assms(5) have s3: "storedResponses (effects st3) = storedResponses (effects st)"
    using stored_proxyRequestWithFallback[of w config request healthy st2] s2 by simp
  note h = handleRequest_forwarded[OF assms(1-5)]
  show ?thesis
    unfolding h using assms(6)
    by (simp add: Let_def stored_cacheResponse effects_updateMetrics nowCalls_updateMetrics s3)
qed

text \<open>
  Claim C5, as amended.  The cache-store predicate holds exactly when caching is enabled,
  the method is GET, the status is 2xx, the \<open>Cache-Control\<close> header is absent or contains
  neither \<open>no-cache\<close> nor \<open>private\<close>, and the \<open>Content-Type\<close> header contains, anywhere in
  its value, \<open>application/json\<close>, \<open>text/\<close> or \<open>application/xml\<close>; containment is that of
  \<open>String.prototype.includes\<close>, a contiguous, case-sensitive occurrence.  \<open>handleRequest\<close>
  hands nothing to \<open>cache.put\<close> when the predicate fails for the response it returns; it
  stores at most the returned response, with \<open>Cache-Control: max-age\<close> and \<open>X-Cached-At\<close>
  set, and only when the predicate holds; and it does store the response that came back
  from the failover loop when the predicate holds for it.
\<close>

theorem shouldCacheResponse_exact:
  "(shouldCacheResponse config request response \<longleftrightarrow>
      enableCaching config \<and> req_method request = ''GET''
      \<and> 200 \<le> status response \<and> status response \<le> 299
      \<and> (case hget (headers response) ''cache-control'' of
            None \<Rightarrow> True
          | Some cc \<Rightarrow> \<not> js_includes cc ''no-cache'' \<and> \<not> js_includes cc ''private'')
      \<and> (case hget (headers response) ''content-type'' of
            None \<Rightarrow> False
          | Some ct \<Rightarrow> js_includes ct ''application/json'' \<or> js_includes ct ''text/''
                        \<or> js_includes ct ''application/xml''))
   \<and> (\<forall>s sub. js_includes s sub \<longleftrightarrow> (\<exists>pre post. s = pre @ sub @ post))
   \<and> (\<not> shouldCacheResponse config request (fst (handleRequest w config request st)) \<longrightarrow>
         storedResponses (effects (snd (handleRequest w config request st)))
           = storedResponses (effects st))
   \<and> (storedResponses (effects (snd (handleRequest w config request st)))
         = storedResponses (effects st)
       \<or> (shouldCacheResponse config request (fst (handleRequest w config request st))
          \<and> (\<exists>t. storedResponses (effects (snd (handleRequest w config request st))) =
                    storedResponses (effects st)
                      @ [(fst (handleRequest w config request st))\<lparr>headers :=
                           hset (hset (headers (fst (handleRequest w config request st)))
                                   ''Cache-Control''
                                   (''max-age='' @ showInt (cacheMaxAge config)))
                             ''X-Cached-At'' (toISOString w t)\<rparr>])))
   \<and> (\<not> isRequestTooLarge request
       \<and> (if enableCaching config \<and> req_method request = ''GET''
           then getCachedResponse w request (snd (doNow w st))
           else (None, snd (doNow w st))) = (None, st1)
       \<and> getHealthyBackends w config st1 = (healthy, st2)
       \<and> healthy \<noteq> []
       \<and> proxyRequestWithFallback w config request healthy st2 = (Inr upstream, st3)
       \<and> shouldCacheResponse config request upstream \<longrightarrow>
         fst (handleRequest w config request st) = upstream
         \<and> storedResponses (effects (snd (handleRequest w config request st))) =
             storedResponses (effects st)
               @ [upstream\<lparr>headers :=
                    hset (hset (headers upstream) ''Cache-Control''
                            (''max-age='' @ showInt (cacheMaxAge config)))
                      ''X-Cached-At'' (toISOString w (dateNow w (Suc (nowCalls st3))))\<rparr>])"
proof (intro conjI allI)
  have nothing: "\<not> js_includes [] ''application/json''" "\<not> js_includes [] ''text/''"
    "\<not> js_includes [] ''application/xml''" by simp_all
  show "shouldCacheResponse config request response \<longleftrightarrow>
      enableCaching config \<and> req_method request = ''GET''
      \<and> 200 \<le> status response \<and> status response \<le> 299
      \<and> (case hget (headers response) ''cache-control'' of
            None \<Rightarrow> True
          | Some cc \<Rightarrow> \<not> js_includes cc ''no-cache'' \<and> \<not> js_includes cc ''private'')
      \<and> (case hget (headers response) ''content-type'' of
            None \<Rightarrow> False
          | Some ct \<Rightarrow> js_includes ct ''application/json'' \<or> js_includes ct ''text/''
                        \<or> js_includes ct ''application/xml'')"
    using nothing
    by (auto simp: shouldCacheResponse_def ok_def hgetOr_def Let_def split: option.splits)
next
  fix s sub show "js_includes s sub \<longleftrightarrow> (\<exists>pre post. s = pre @ sub @ post)"
    by (rule js_includes_iff)
next
  show "\<not> shouldCacheResponse config request (fst (handleRequest w config request st)) \<longrightarrow>
         storedResponses (effects (snd (handleRequest w config request st)))
           = storedResponses (effects st)"
    using handleRequest_stores[of w config request st] by blast
next
  show "storedResponses (effects (snd (handleRequest w config request st)))
         = storedResponses (effects st)
       \<or> (shouldCacheResponse config request (fst (handleRequest w config request st))
          \<and> (\<exists>t. storedResponses (effects (snd (handleRequest w config request st))) =
                    storedResponses (effects st)
                      @ [(fst (handleRequest w config request st))\<lparr>headers :=
                           hset (hset (headers (fst (handleRequest w config request st)))
                                   ''Cache-Control''
                                   (''max-age='' @ showInt (cacheMaxAge config)))
                             ''X-Cached-At'' (toISOString w t)\<rparr>]))"
    by (rule handleRequest_stores)
next
  show "\<not> isRequestTooLarge request
       \<and> (if enableCaching config \<and> req_method request = ''GET''
           then getCachedResponse w request (snd (doNow w st))
           else (None, snd (doNow w st))) = (None, st1)
       \<and> getHealthyBackends w config st1 = (healthy, st2)
       \<and> healthy \<noteq> []
       \<and> proxyRequestWithFallback w config request healthy st2 = (Inr upstream, st3)
       \<and> shouldCacheResponse config request upstream \<longrightarrow>
         fst (handleRequest w config request st) = upstream
         \<and> storedResponses (effects (snd (handleRequest w config request st))) =
             storedResponses (effects st)
               @ [upstream\<lparr>headers :=
                    hset (hset (headers upstream) ''Cache-Control''
                            (''max-age='' @ showInt (cacheMaxAge config)))
                      ''X-Cached-At'' (toISOString w (dateNow w (Suc (nowCalls st3))))\<rparr>]"
    using handleRequest_forwarded_stores[of request config w st st1 healthy st2 upstream st3]
    by blast
qed

lemma plain_not_cacheable:
  "\<not> shouldCacheResponse (configWith 5) getRequest
        (fst (handleRequest (answeringWorld 200) (configWith 5) getRequest
                (initState (configWith 5))))"
  by code_simp

lemma related_stored:
  "storedResponses (effects (snd (handleRequest relatedWorld (configWith 5) getRequest
       (initState (configWith 5))))) =
     [\<lparr>status = 200, statusText = ''OK'',
       headers = [(''content-type'', ''multipart/related; type=text/xml''),
                  (''x-backend-url'', ''B''), (''x-backend-region'', ''asia-east''),
                  (''cache-control'', ''max-age=300''), (''x-cached-at'', ''3'')],
       body = RawBody ''...''\<rparr>]"
  by code_simp

theorem shouldCacheResponse_exact_witness:
  "\<not> shouldCacheResponse (configWith 5) getRequest
        (fst (handleRequest (answeringWorld 200) (configWith 5) getRequest
                (initState (configWith 5))))
   \<and> storedResponses (effects (snd (handleRequest (answeringWorld 200) (configWith 5) getRequest
         (initState (configWith 5))))) = storedResponses (effects (initState (configWith 5)))
   \<and> storedResponses (effects (snd (handleRequest relatedWorld (configWith 5) getRequest
         (initState (configWith 5))))) =
       [\<lparr>status = 200, statusText = ''OK'',
         headers = [(''content-type'', ''multipart/related; type=text/xml''),
                    (''x-backend-url'', ''B''), (''x-backend-region'', ''asia-east''),
                    (''cache-control'', ''max-age=300''), (''x-cached-at'', ''3'')],
         body = RawBody ''...''\<rparr>]"
proof -
  from shouldCacheResponse_exact[of "configWith 5" getRequest _ "answeringWorld 200"
      "initState (configWith 5)"]
  have "\<not> shouldCacheResponse (configWith 5) getRequest
            (fst (handleRequest (answeringWorld 200) (configWith 5) getRequest
                    (initState (configWith 5)))) \<longrightarrow>
         storedResponses (effects (snd (handleRequest (answeringWorld 200) (configWith 5)
             getRequest (initState (configWith 5)))))
           = storedResponses (effects (initState (configWith 5)))"
    by blast
  with plain_not_cacheable related_stored show ?thesis by blast
qed

theorem shouldCacheResponse_counterexample:
  "shouldCacheResponse (configWith 5) getRequest relatedResponse
   \<and> hget (headers relatedResponse) ''content-type'' = Some ''multipart/related; type=text/xml''
   \<and> \<not> startsWith ''multipart/related; type=text/xml'' ''application/json''
   \<and> \<not> startsWith ''multipart/related; type=text/xml'' ''text/''
   \<and> \<not> startsWith ''multipart/related; type=text/xml'' ''application/xml''"
  by code_simp

end
